theory Spec2Isabelle
  imports Main "HOL-Library.AList"
begin

section \<open>JavaScript values\<close>

text \<open>
  The client of \<^verbatim>\<open>src/codex-client.js\<close> handles values that come out of
  \<^verbatim>\<open>JSON.parse\<close>, plus \<^verbatim>\<open>undefined\<close> for a property that is absent.
  Numbers are modelled as integers: the client never computes with a number, it only
  compares numbers, tests them for truthiness and prints them, and the identifiers and
  token counts of the protocol are integers. An object is the list of its own
  properties.
\<close>

datatype js =
    JUndefined
  | JNull
  | JBool bool
  | JNum int
  | JStr string
  | JArr "js list"
  | JObj "(string \<times> js) list"

text \<open>A thrown exception: a \<^verbatim>\<open>TypeError\<close> of the runtime, or \<^verbatim>\<open>new Error(message)\<close>.\<close>

datatype exn = TypeError | Error string

fun nullish :: "js \<Rightarrow> bool" where
  "nullish JUndefined = True"
| "nullish JNull = True"
| "nullish _ = False"

fun truthy :: "js \<Rightarrow> bool" where
  "truthy JUndefined = False"
| "truthy JNull = False"
| "truthy (JBool b) = b"
| "truthy (JNum n) = (n \<noteq> 0)"
| "truthy (JStr s) = (s \<noteq> [])"
| "truthy (JArr _) = True"
| "truthy (JObj _) = True"

text \<open>
  \<^verbatim>\<open>a === b\<close>. Primitives compare by value. Arrays and objects compare by identity;
  the two sides of every comparison of the client come from different parsed messages
  (or from a literal), so two arrays or objects are never the same one.
\<close>

fun strict_eq :: "js \<Rightarrow> js \<Rightarrow> bool" where
  "strict_eq JUndefined JUndefined = True"
| "strict_eq JNull JNull = True"
| "strict_eq (JBool a) (JBool b) = (a = b)"
| "strict_eq (JNum a) (JNum b) = (a = b)"
| "strict_eq (JStr a) (JStr b) = (a = b)"
| "strict_eq _ _ = False"

text \<open>
  \<^verbatim>\<open>v.k\<close> on a receiver that is not null or undefined. None of the property names
  the client reads is a built-in property of strings, numbers, booleans or arrays, so
  only an object has them.
\<close>

fun get_prop :: "js \<Rightarrow> string \<Rightarrow> js" where
  "get_prop (JObj kvs) k = (case map_of kvs k of Some v \<Rightarrow> v | None \<Rightarrow> JUndefined)"
| "get_prop _ k = JUndefined"

text \<open>\<^verbatim>\<open>v.k\<close> in general: a TypeError on null and undefined.\<close>

definition member :: "js \<Rightarrow> string \<Rightarrow> exn + js" where
  "member v k = (if nullish v then Inl TypeError else Inr (get_prop v k))"

text \<open>\<^verbatim>\<open>v?.k\<close>\<close>

definition opt_member :: "js \<Rightarrow> string \<Rightarrow> js" where
  "opt_member v k = (if nullish v then JUndefined else get_prop v k)"

text \<open>\<^verbatim>\<open>a ?? b\<close> and \<^verbatim>\<open>a || b\<close>\<close>

definition nullish_coalesce :: "js \<Rightarrow> js \<Rightarrow> js" where
  "nullish_coalesce a b = (if nullish a then b else a)"

definition js_or :: "js \<Rightarrow> js \<Rightarrow> js" where
  "js_or a b = (if truthy a then a else b)"

text \<open>\<^verbatim>\<open>Object.prototype.hasOwnProperty.call(v, k)\<close> for a receiver that is not null.\<close>

fun has_own :: "js \<Rightarrow> string \<Rightarrow> bool" where
  "has_own (JObj kvs) k = (map_of kvs k \<noteq> None)"
| "has_own _ k = False"

fun is_string :: "js \<Rightarrow> bool" where
  "is_string (JStr _) = True"
| "is_string _ = False"

fun is_number :: "js \<Rightarrow> bool" where
  "is_number (JNum _) = True"
| "is_number _ = False"

subsection \<open>Conversion to strings\<close>

fun string_of_nat :: "nat \<Rightarrow> string" where
  "string_of_nat n =
     (if n < 10 then [char_of (48 + n)]
      else string_of_nat (n div 10) @ [char_of (48 + n mod 10)])"

declare string_of_nat.simps [simp del]

definition string_of_int :: "int \<Rightarrow> string" where
  "string_of_int i = (if i < 0 then CHR ''-'' # string_of_nat (nat (- i)) else string_of_nat (nat i))"

fun join :: "string \<Rightarrow> string list \<Rightarrow> string" where
  "join sep [] = []"
| "join sep [x] = x"
| "join sep (x # y # ys) = x @ sep @ join sep (y # ys)"

text \<open>
  \<^verbatim>\<open>String(v)\<close>, which is also what a template literal and a computed property key
  apply. An array joins its elements with commas, null and undefined printing as
  the empty string.
\<close>

fun js_to_string :: "js \<Rightarrow> string" where
  "js_to_string JUndefined = ''undefined''"
| "js_to_string JNull = ''null''"
| "js_to_string (JBool b) = (if b then ''true'' else ''false'')"
| "js_to_string (JNum n) = string_of_int n"
| "js_to_string (JStr s) = s"
| "js_to_string (JArr xs) = join '','' (map (\<lambda>v. if nullish v then [] else js_to_string v) xs)"
| "js_to_string (JObj kvs) = ''[object Object]''"

text \<open>\<^verbatim>\<open>String.prototype.trim\<close> on the white space of ASCII.\<close>

definition is_space :: "char \<Rightarrow> bool" where
  "is_space c = (c \<in> set [CHR '' '', CHR 0x09, CHR 0x0A, CHR 0x0B, CHR 0x0C, CHR 0x0D])"

definition trim :: "string \<Rightarrow> string" where
  "trim s = rev (dropWhile is_space (rev (dropWhile is_space s)))"

section \<open>The turn waiter\<close>

text \<open>
  \<^verbatim>\<open>#createTurnWaiter(threadId, timeoutMs)\<close> returns an object whose state lives in
  the variables of a closure. The record holds these variables, the state of the
  promise the waiter creates (\<open>None\<close> while it is pending), and what the runtime holds
  for it: whether \<^verbatim>\<open>notificationHandler\<close> is in the client's set of listeners and
  whether the deadline timer is still to fire. Two counters record how often
  \<^verbatim>\<open>off()\<close> and \<^verbatim>\<open>resolvePromise\<close>/\<^verbatim>\<open>rejectPromise\<close> have been called.
\<close>

record waiter =
  w_threadId :: js
  w_timeoutMs :: int
  turnId :: js
  latestAgentMessage :: string
  aggregatedAgentDeltas :: string
  usage :: js
  settled :: bool
  promise :: "(exn + js) option"
  subscribed :: bool
  timer_armed :: bool
  off_calls :: nat
  settle_calls :: nat

definition createTurnWaiter :: "js \<Rightarrow> int \<Rightarrow> waiter" where
  "createTurnWaiter threadId timeoutMs =
     \<lparr> w_threadId = threadId, w_timeoutMs = timeoutMs, turnId = JNull,
       latestAgentMessage = [], aggregatedAgentDeltas = [], usage = JNull,
       settled = False, promise = None, subscribed = True, timer_armed = True,
       off_calls = 0, settle_calls = 0 \<rparr>"

text \<open>
  \<^verbatim>\<open>finish(handler)\<close>; every handler of the source calls \<^verbatim>\<open>resolvePromise\<close> or
  \<^verbatim>\<open>rejectPromise\<close> once, with the outcome given here. A promise keeps its first
  settlement.
\<close>

definition finish :: "exn + js \<Rightarrow> waiter \<Rightarrow> waiter" where
  "finish outcome w =
     (if settled w then w
      else w \<lparr> settled := True, timer_armed := False, subscribed := False,
               off_calls := off_calls w + 1,
               promise := (case promise w of None \<Rightarrow> Some outcome | Some r \<Rightarrow> Some r),
               settle_calls := settle_calls w + 1 \<rparr>)"

text \<open>The test \<^verbatim>\<open>!turnId || id === turnId\<close> and the statement that learns the turn id.\<close>

definition turn_matches :: "js \<Rightarrow> waiter \<Rightarrow> bool" where
  "turn_matches v w = (\<not> truthy (turnId w) \<or> strict_eq v (turnId w))"

definition learn_turn_id :: "js \<Rightarrow> waiter \<Rightarrow> waiter" where
  "learn_turn_id v w = (if \<not> truthy (turnId w) \<and> truthy v then w \<lparr> turnId := v \<rparr> else w)"

definition params_of :: "js \<Rightarrow> js" where
  "params_of message = nullish_coalesce (get_prop message ''params'') (JObj [])"

definition token_usage :: "js \<Rightarrow> js" where
  "token_usage params =
     (let l = opt_member (opt_member params ''tokenUsage'') ''last'' in
      JObj [(''inputTokens'', nullish_coalesce (opt_member l ''inputTokens'') (JNum 0)),
            (''outputTokens'', nullish_coalesce (opt_member l ''outputTokens'') (JNum 0))])"

definition turn_result :: "waiter \<Rightarrow> js" where
  "turn_result w =
     JObj [(''text'', JStr (if latestAgentMessage w \<noteq> [] then latestAgentMessage w
                            else aggregatedAgentDeltas w)),
           (''usage'', usage w)]"

definition turn_failure :: "js \<Rightarrow> exn" where
  "turn_failure turn =
     Error (''Turn '' @ js_to_string (nullish_coalesce (opt_member turn ''status'') (JStr ''unknown''))
            @ '': ''
            @ js_to_string (js_or (opt_member (opt_member turn ''error'') ''message'')
                                  (JStr ''turn did not complete'')))"

text \<open>The value of a string, the empty string for any other value.\<close>

fun string_or_empty :: "js \<Rightarrow> string" where
  "string_or_empty (JStr s) = s"
| "string_or_empty _ = []"

text \<open>
  The five branches of \<^verbatim>\<open>notificationHandler\<close>, each the body under its test of
  the method and the thread id, and then the handler that selects among them.
\<close>

definition on_delta :: "js \<Rightarrow> waiter \<Rightarrow> waiter" where
  "on_delta params w =
     (if turn_matches (get_prop params ''turnId'') w then
        (let w1 = learn_turn_id (get_prop params ''turnId'') w in
         w1 \<lparr> aggregatedAgentDeltas :=
                 aggregatedAgentDeltas w1 @ string_or_empty (get_prop params ''delta'') \<rparr>)
      else w)"

definition on_item_completed :: "js \<Rightarrow> waiter \<Rightarrow> waiter" where
  "on_item_completed params w =
     (if turn_matches (get_prop params ''turnId'') w then
        (let w1 = learn_turn_id (get_prop params ''turnId'') w in
         if strict_eq (opt_member (get_prop params ''item'') ''type'') (JStr ''agentMessage'')
            \<and> is_string (get_prop (get_prop params ''item'') ''text'')
         then w1 \<lparr> latestAgentMessage :=
                      string_or_empty (get_prop (get_prop params ''item'') ''text'') \<rparr>
         else w1)
      else w)"

definition on_token_usage :: "js \<Rightarrow> waiter \<Rightarrow> waiter" where
  "on_token_usage params w =
     (if turn_matches (get_prop params ''turnId'') w then
        (let w1 = learn_turn_id (get_prop params ''turnId'') w in
         w1 \<lparr> usage := token_usage params \<rparr>)
      else w)"

definition error_failure :: "js \<Rightarrow> exn" where
  "error_failure params =
     Error (js_to_string (nullish_coalesce (opt_member (opt_member params ''error'') ''message'')
                                           (JStr ''Turn failed.'')))"

definition on_error :: "js \<Rightarrow> waiter \<Rightarrow> waiter" where
  "on_error params w =
     (if turn_matches (get_prop params ''turnId'') w then
        (let w1 = learn_turn_id (get_prop params ''turnId'') w in
         if \<not> truthy (get_prop params ''willRetry'') then finish (Inl (error_failure params)) w1
         else w1)
      else w)"

definition on_turn_completed :: "js \<Rightarrow> waiter \<Rightarrow> waiter" where
  "on_turn_completed params w =
     (if turn_matches (opt_member (get_prop params ''turn'') ''id'') w then
        (let w1 = learn_turn_id (opt_member (get_prop params ''turn'') ''id'') w in
         if strict_eq (opt_member (opt_member params ''turn'') ''status'') (JStr ''completed'')
         then finish (Inr (turn_result w1)) w1
         else finish (Inl (turn_failure (opt_member params ''turn''))) w1)
      else w)"

definition same_thread :: "js \<Rightarrow> waiter \<Rightarrow> bool" where
  "same_thread params w = strict_eq (get_prop params ''threadId'') (w_threadId w)"

definition notificationHandler :: "js \<Rightarrow> waiter \<Rightarrow> waiter" where
  "notificationHandler message w =
     (let method = get_prop message ''method'';
          params = params_of message
      in
      if strict_eq method (JStr ''item/agentMessage/delta'') \<and> same_thread params w then
        on_delta params w
      else if strict_eq method (JStr ''item/completed'') \<and> same_thread params w then
        on_item_completed params w
      else if strict_eq method (JStr ''thread/tokenUsage/updated'') \<and> same_thread params w then
        on_token_usage params w
      else if strict_eq method (JStr ''error'') \<and> same_thread params w then
        on_error params w
      else if strict_eq method (JStr ''turn/completed'') \<and> same_thread params w then
        on_turn_completed params w
      else w)"

text \<open>The callback of the deadline timer; a timer that was cleared never fires.\<close>

definition deadline :: "waiter \<Rightarrow> waiter" where
  "deadline w =
     (if timer_armed w then
        finish (Inl (Error (''Turn timed out after '' @ string_of_int (w_timeoutMs w) @ ''ms.'')))
               (w \<lparr> timer_armed := False \<rparr>)
      else w)"

definition setTurnId :: "js \<Rightarrow> waiter \<Rightarrow> waiter" where
  "setTurnId v w = w \<lparr> turnId := v \<rparr>"

definition dispose :: "waiter \<Rightarrow> waiter" where
  "dispose w =
     (if \<not> settled w then
        w \<lparr> timer_armed := False, subscribed := False, off_calls := off_calls w + 1,
            settled := True \<rparr>
      else w)"

text \<open>\<^verbatim>\<open>#emitNotification\<close> calls the listeners that are in the set.\<close>

definition deliver :: "js \<Rightarrow> waiter \<Rightarrow> waiter" where
  "deliver message w = (if subscribed w then notificationHandler message w else w)"

text \<open>What can happen to a waiter, and a run of such events in order.\<close>

datatype waiter_event = Notification js | Deadline | SetTurnId js | Dispose

fun waiter_step :: "waiter_event \<Rightarrow> waiter \<Rightarrow> waiter" where
  "waiter_step (Notification m) w = deliver m w"
| "waiter_step Deadline w = deadline w"
| "waiter_step (SetTurnId v) w = setTurnId v w"
| "waiter_step Dispose w = dispose w"

fun waiter_run :: "waiter_event list \<Rightarrow> waiter \<Rightarrow> waiter" where
  "waiter_run [] w = w"
| "waiter_run (e # es) w = waiter_run es (waiter_step e w)"

subsection \<open>What a run of events delivers to a waiter\<close>

text \<open>
  The turn id a notification carries sits under \<^verbatim>\<open>params.turn.id\<close> in a
  \<^verbatim>\<open>turn/completed\<close> notification and under \<^verbatim>\<open>params.turnId\<close> in every other
  one. A waiter accepts a notification when the thread id is its own and the turn id
  passes \<open>turn_matches\<close>. \<open>accepted_log\<close> lists the notifications of a run that the
  handler was called with and accepted: the events that arrived for the turn.
\<close>

definition notification_turn_id :: "js \<Rightarrow> js" where
  "notification_turn_id m =
     (if strict_eq (get_prop m ''method'') (JStr ''turn/completed'')
      then opt_member (get_prop (params_of m) ''turn'') ''id''
      else get_prop (params_of m) ''turnId'')"

definition accepts :: "js \<Rightarrow> waiter \<Rightarrow> bool" where
  "accepts m w = (same_thread (params_of m) w \<and> turn_matches (notification_turn_id m) w)"

fun accepted_log :: "waiter_event list \<Rightarrow> waiter \<Rightarrow> js list" where
  "accepted_log [] w = []"
| "accepted_log (Notification m # es) w =
     (if subscribed w \<and> accepts m w then [m] else []) @ accepted_log es (waiter_step (Notification m) w)"
| "accepted_log (e # es) w = accepted_log es (waiter_step e w)"

definition has_method :: "string \<Rightarrow> js \<Rightarrow> bool" where
  "has_method k m = strict_eq (get_prop m ''method'') (JStr k)"

definition delta_texts :: "js list \<Rightarrow> string" where
  "delta_texts ms =
     concat (map (\<lambda>m. string_or_empty (get_prop (params_of m) ''delta''))
                 (filter (has_method ''item/agentMessage/delta'') ms))"

definition is_agent_message :: "js \<Rightarrow> bool" where
  "is_agent_message m =
     (has_method ''item/completed'' m \<and>
      strict_eq (opt_member (get_prop (params_of m) ''item'') ''type'') (JStr ''agentMessage'') \<and>
      is_string (get_prop (get_prop (params_of m) ''item'') ''text''))"

definition agent_messages :: "js list \<Rightarrow> string list" where
  "agent_messages ms =
     map (\<lambda>m. string_or_empty (get_prop (get_prop (params_of m) ''item'') ''text''))
         (filter is_agent_message ms)"

definition usage_updates :: "js list \<Rightarrow> js list" where
  "usage_updates ms = filter (has_method ''thread/tokenUsage/updated'') ms"

text \<open>
  The text and the usage of a successful turn, said in terms of the accepted
  notifications. \<open>claimed_text\<close> is the text as the specification words it: the latest
  complete agent message whenever one arrived, the concatenated deltas otherwise.
  \<open>resolved_text\<close> differs only for an agent message that is the empty string.
  \<open>claimed_result_shape\<close> is the shape the specification gives to every result.
\<close>

definition resolved_text :: "js list \<Rightarrow> string" where
  "resolved_text ms =
     (if agent_messages ms \<noteq> [] \<and> last (agent_messages ms) \<noteq> [] then last (agent_messages ms)
      else delta_texts ms)"

definition claimed_text :: "js list \<Rightarrow> string" where
  "claimed_text ms =
     (if agent_messages ms \<noteq> [] then last (agent_messages ms) else delta_texts ms)"

definition last_snapshot :: "js \<Rightarrow> js" where
  "last_snapshot m = opt_member (opt_member (params_of m) ''tokenUsage'') ''last''"

definition field_or_zero :: "js \<Rightarrow> string \<Rightarrow> js" where
  "field_or_zero v k = (if nullish (opt_member v k) then JNum 0 else opt_member v k)"

definition resolved_usage :: "js list \<Rightarrow> js" where
  "resolved_usage ms =
     (if usage_updates ms = [] then JNull
      else JObj [(''inputTokens'', field_or_zero (last_snapshot (last (usage_updates ms))) ''inputTokens''),
                 (''outputTokens'', field_or_zero (last_snapshot (last (usage_updates ms))) ''outputTokens'')])"

definition claimed_result_shape :: "js \<Rightarrow> bool" where
  "claimed_result_shape res =
     (is_string (get_prop res ''text'') \<and>
      is_number (get_prop (get_prop res ''usage'') ''inputTokens'') \<and>
      is_number (get_prop (get_prop res ''usage'') ''outputTokens''))"

definition number_or_missing :: "js \<Rightarrow> bool" where
  "number_or_missing v = (nullish v \<or> is_number v)"

subsection \<open>Sample notifications\<close>

text \<open>The notifications of the scenarios of the specification, for thread \<open>t1\<close> and turn \<open>u1\<close>.\<close>

definition notification :: "string \<Rightarrow> (string \<times> js) list \<Rightarrow> js" where
  "notification method params =
     JObj [(''jsonrpc'', JStr ''2.0''), (''method'', JStr method),
           (''params'', JObj ((''threadId'', JStr ''t1'') # params))]"

definition delta_msg :: "string \<Rightarrow> js" where
  "delta_msg d = notification ''item/agentMessage/delta'' [(''turnId'', JStr ''u1''), (''delta'', JStr d)]"

definition agent_message_msg :: "string \<Rightarrow> js" where
  "agent_message_msg t =
     notification ''item/completed''
       [(''turnId'', JStr ''u1''), (''item'', JObj [(''type'', JStr ''agentMessage''), (''text'', JStr t)])]"

definition usage_msg :: "int \<Rightarrow> int \<Rightarrow> js" where
  "usage_msg i out =
     notification ''thread/tokenUsage/updated''
       [(''turnId'', JStr ''u1''),
        (''tokenUsage'', JObj [(''last'', JObj [(''inputTokens'', JNum i), (''outputTokens'', JNum out)])])]"

definition completed_msg :: "string \<Rightarrow> js" where
  "completed_msg status =
     notification ''turn/completed'' [(''turn'', JObj [(''id'', JStr ''u1''), (''status'', JStr status)])]"

definition error_msg :: "string \<Rightarrow> bool \<Rightarrow> js" where
  "error_msg text retry =
     notification ''error''
       [(''turnId'', JStr ''u1''), (''error'', JObj [(''message'', JStr text)]), (''willRetry'', JBool retry)]"

definition happy_path :: "waiter_event list" where
  "happy_path =
     [Notification (delta_msg ''Hi''), Notification (agent_message_msg ''Hi there''),
      Notification (usage_msg 3 2), Notification (completed_msg ''completed'')]"

subsection \<open>Invariants of the waiter\<close>

text \<open>
  A notification handler either changes what the waiter has accumulated, or does so and
  then calls \<open>finish\<close>. \<open>same_control\<close> relates two waiters that differ in the
  accumulated state only.
\<close>

definition same_control :: "waiter \<Rightarrow> waiter \<Rightarrow> bool" where
  "same_control w w1 =
     (settled w1 = settled w \<and> promise w1 = promise w \<and> subscribed w1 = subscribed w \<and>
      timer_armed w1 = timer_armed w \<and> off_calls w1 = off_calls w \<and>
      settle_calls w1 = settle_calls w \<and> w_threadId w1 = w_threadId w \<and>
      w_timeoutMs w1 = w_timeoutMs w)"

definition handler_shape :: "waiter \<Rightarrow> waiter \<Rightarrow> bool" where
  "handler_shape w w' = (\<exists>w1. same_control w w1 \<and> (w' = w1 \<or> (\<exists>r. w' = finish r w1)))"

definition waiter_ok :: "waiter \<Rightarrow> bool" where
  "waiter_ok w =
     (if settled w then
        off_calls w = 1 \<and> \<not> subscribed w \<and> \<not> timer_armed w \<and>
        settle_calls w = (if promise w = None then 0 else 1)
      else off_calls w = 0 \<and> settle_calls w = 0 \<and> promise w = None \<and>
           subscribed w \<and> timer_armed w)"

definition tracks :: "waiter \<Rightarrow> js list \<Rightarrow> bool" where
  "tracks w ms =
     (aggregatedAgentDeltas w = delta_texts ms \<and>
      latestAgentMessage w = (if agent_messages ms = [] then [] else last (agent_messages ms)) \<and>
      usage w = (if usage_updates ms = [] then JNull
                 else token_usage (params_of (last (usage_updates ms)))))"

definition result_ok :: "waiter \<Rightarrow> bool" where
  "result_ok w = (\<forall>res. promise w = Some (Inr res) \<longrightarrow> res = turn_result w)"

lemma same_control_refl: "same_control w w"
  by (simp add: same_control_def)

lemma same_control_learn: "same_control w (learn_turn_id v w)"
  by (simp add: same_control_def learn_turn_id_def)

lemma shape_refl: "handler_shape w w"
  unfolding handler_shape_def using same_control_refl by blast

lemma shape_delta: "handler_shape w (on_delta p w)"
  unfolding handler_shape_def on_delta_def Let_def
  by (rule exI [of _ "on_delta p w"]) (simp add: on_delta_def Let_def same_control_def learn_turn_id_def)

lemma shape_item: "handler_shape w (on_item_completed p w)"
  unfolding handler_shape_def
  by (rule exI [of _ "on_item_completed p w"]) (simp add: on_item_completed_def Let_def same_control_def learn_turn_id_def)

lemma shape_usage: "handler_shape w (on_token_usage p w)"
  unfolding handler_shape_def
  by (rule exI [of _ "on_token_usage p w"]) (simp add: on_token_usage_def Let_def same_control_def learn_turn_id_def)

lemma shape_error: "handler_shape w (on_error p w)"
  unfolding handler_shape_def on_error_def Let_def
  using same_control_learn same_control_refl by (cases "turn_matches (get_prop p ''turnId'') w"; cases "truthy (get_prop p ''willRetry'')"; simp; blast)

lemma shape_completed: "handler_shape w (on_turn_completed p w)"
  unfolding handler_shape_def on_turn_completed_def Let_def
  using same_control_learn same_control_refl by (cases "turn_matches (opt_member (get_prop p ''turn'') ''id'') w"; simp; blast)

lemma notificationHandler_shape: "handler_shape w (notificationHandler m w)"
  unfolding notificationHandler_def Let_def
  by (simp add: shape_refl shape_delta shape_item shape_usage shape_error shape_completed)

lemma waiter_ok_create: "waiter_ok (createTurnWaiter t ms)"
  by (simp add: waiter_ok_def createTurnWaiter_def)

lemma waiter_ok_same_control: "waiter_ok w \<Longrightarrow> same_control w w1 \<Longrightarrow> waiter_ok w1"
  by (simp add: waiter_ok_def same_control_def)

lemma waiter_ok_finish: "waiter_ok w \<Longrightarrow> waiter_ok (finish r w)"
  by (simp add: waiter_ok_def finish_def)

lemma waiter_ok_handler: "waiter_ok w \<Longrightarrow> waiter_ok (notificationHandler m w)"
  using notificationHandler_shape [of w m] waiter_ok_same_control waiter_ok_finish
  unfolding handler_shape_def by metis

lemma waiter_ok_step: "waiter_ok w \<Longrightarrow> waiter_ok (waiter_step e w)"
proof (cases e)
  case (Notification m)
  assume "waiter_ok w"
  then show ?thesis using Notification waiter_ok_handler by (simp add: deliver_def)
next
  case Deadline
  assume "waiter_ok w"
  then show ?thesis using Deadline by (simp add: deadline_def finish_def waiter_ok_def)
next
  case (SetTurnId v)
  assume "waiter_ok w"
  then show ?thesis using SetTurnId by (simp add: setTurnId_def waiter_ok_def)
next
  case Dispose
  assume "waiter_ok w"
  then show ?thesis using Dispose by (simp add: dispose_def waiter_ok_def)
qed

lemma waiter_ok_run: "waiter_ok w \<Longrightarrow> waiter_ok (waiter_run evs w)"
  by (induction evs arbitrary: w) (simp_all add: waiter_ok_step)

lemma settled_step:
  assumes "waiter_ok w" and "settled w"
  shows "latestAgentMessage (waiter_step e w) = latestAgentMessage w \<and>
         aggregatedAgentDeltas (waiter_step e w) = aggregatedAgentDeltas w \<and>
         usage (waiter_step e w) = usage w \<and>
         promise (waiter_step e w) = promise w \<and>
         settled (waiter_step e w) \<and>
         off_calls (waiter_step e w) = off_calls w \<and>
         settle_calls (waiter_step e w) = settle_calls w"
  using assms
  by (cases e) (simp_all add: waiter_ok_def deliver_def deadline_def setTurnId_def dispose_def)

lemma strict_eq_JStr: "strict_eq v (JStr k) = (v = JStr k)"
  by (cases v) auto

lemma tracks_handler:
  assumes "tracks w ms"
  shows "tracks (notificationHandler m w) (ms @ (if accepts m w then [m] else []))"
proof -
  consider (d) "has_method ''item/agentMessage/delta'' m"
    | (i) "has_method ''item/completed'' m"
    | (u) "has_method ''thread/tokenUsage/updated'' m"
    | (e) "has_method ''error'' m"
    | (c) "has_method ''turn/completed'' m"
    | (o) "\<not> has_method ''item/agentMessage/delta'' m" "\<not> has_method ''item/completed'' m"
          "\<not> has_method ''thread/tokenUsage/updated'' m" "\<not> has_method ''error'' m"
          "\<not> has_method ''turn/completed'' m"
    by blast
  then show ?thesis
  proof cases
    case d
    then show ?thesis using assms
      by (simp add: has_method_def strict_eq_JStr notificationHandler_def tracks_def accepts_def
          notification_turn_id_def on_delta_def learn_turn_id_def delta_texts_def agent_messages_def
          usage_updates_def is_agent_message_def Let_def turn_matches_def)
  next
    case i
    then show ?thesis using assms
      by (simp add: has_method_def strict_eq_JStr notificationHandler_def tracks_def accepts_def
          notification_turn_id_def on_item_completed_def learn_turn_id_def delta_texts_def agent_messages_def
          usage_updates_def is_agent_message_def Let_def turn_matches_def)
  next
    case u
    then show ?thesis using assms
      by (simp add: has_method_def strict_eq_JStr notificationHandler_def tracks_def accepts_def
          notification_turn_id_def on_token_usage_def learn_turn_id_def delta_texts_def agent_messages_def
          usage_updates_def is_agent_message_def Let_def turn_matches_def)
  next
    case e
    then show ?thesis using assms
      by (simp add: has_method_def strict_eq_JStr notificationHandler_def tracks_def accepts_def
          notification_turn_id_def on_error_def learn_turn_id_def delta_texts_def agent_messages_def
          usage_updates_def is_agent_message_def Let_def turn_matches_def finish_def)
  next
    case c
    then show ?thesis using assms
      by (simp add: has_method_def strict_eq_JStr notificationHandler_def tracks_def accepts_def
          notification_turn_id_def on_turn_completed_def learn_turn_id_def delta_texts_def agent_messages_def
          usage_updates_def is_agent_message_def Let_def turn_matches_def finish_def)
  next
    case o
    then show ?thesis using assms
      by (simp add: has_method_def strict_eq_JStr notificationHandler_def tracks_def accepts_def
          notification_turn_id_def delta_texts_def agent_messages_def
          usage_updates_def is_agent_message_def Let_def)
  qed
qed

lemma tracks_step:
  assumes "tracks w ms"
  shows "tracks (waiter_step e w) (ms @ accepted_log [e] w)"
proof (cases e)
  case (Notification m)
  then show ?thesis using tracks_handler [OF assms, of m] assms by (simp add: deliver_def)
next
  case Deadline
  then show ?thesis using assms by (simp add: deadline_def finish_def tracks_def)
next
  case (SetTurnId v)
  then show ?thesis using assms by (simp add: setTurnId_def tracks_def)
next
  case Dispose
  then show ?thesis using assms by (simp add: dispose_def tracks_def)
qed

lemma accepted_log_Cons: "accepted_log (e # es) w = accepted_log [e] w @ accepted_log es (waiter_step e w)"
  by (cases e) simp_all

lemma tracks_run: "tracks w ms \<Longrightarrow> tracks (waiter_run evs w) (ms @ accepted_log evs w)"
proof (induction evs arbitrary: w ms)
  case Nil
  then show ?case by simp
next
  case (Cons e es)
  have "tracks (waiter_step e w) (ms @ accepted_log [e] w)" using Cons.prems by (rule tracks_step)
  then have "tracks (waiter_run es (waiter_step e w)) ((ms @ accepted_log [e] w) @ accepted_log es (waiter_step e w))"
    by (rule Cons.IH)
  then show ?case using accepted_log_Cons [of e es w] by simp
qed

lemma tracks_create: "tracks (createTurnWaiter t ms) []"
  by (simp add: tracks_def createTurnWaiter_def delta_texts_def agent_messages_def usage_updates_def)

lemma result_ok_finish_Inl: "result_ok w \<Longrightarrow> result_ok (finish (Inl e) w)"
  by (auto simp: result_ok_def finish_def turn_result_def split: option.splits)

lemma result_ok_finish_Inr: "result_ok w \<Longrightarrow> result_ok (finish (Inr (turn_result w)) w)"
  by (auto simp: result_ok_def finish_def turn_result_def split: option.splits)

lemma result_ok_learn: "result_ok w \<Longrightarrow> result_ok (learn_turn_id v w)"
  by (auto simp: result_ok_def learn_turn_id_def turn_result_def)

lemma result_ok_handler:
  assumes "result_ok w" and "promise w = None"
  shows "result_ok (notificationHandler m w)"
proof -
  have n: "\<And>w'. promise w' = None \<Longrightarrow> result_ok w'" by (simp add: result_ok_def)
  have l: "\<And>v. promise (learn_turn_id v w) = None" using assms(2) by (simp add: learn_turn_id_def)
  have 1: "result_ok (on_delta (params_of m) w)"
    by (rule n) (simp add: on_delta_def Let_def l assms(2))
  have 2: "result_ok (on_item_completed (params_of m) w)"
    by (rule n) (simp add: on_item_completed_def Let_def l assms(2))
  have 3: "result_ok (on_token_usage (params_of m) w)"
    by (rule n) (simp add: on_token_usage_def Let_def l assms(2))
  have 4: "result_ok (on_error (params_of m) w)"
    unfolding on_error_def Let_def using assms(1) result_ok_finish_Inl result_ok_learn by simp
  have 5: "result_ok (on_turn_completed (params_of m) w)"
    unfolding on_turn_completed_def Let_def
    using assms(1) result_ok_finish_Inl result_ok_finish_Inr result_ok_learn by simp
  show ?thesis
    unfolding notificationHandler_def Let_def using 1 2 3 4 5 assms(1) by simp
qed

lemma result_ok_step:
  assumes "waiter_ok w" and "result_ok w"
  shows "result_ok (waiter_step e w)"
proof (cases "settled w")
  case True
  have "promise (waiter_step e w) = promise w \<and> turn_result (waiter_step e w) = turn_result w"
    using settled_step [OF assms(1) True, of e] by (simp add: turn_result_def)
  then show ?thesis using assms(2) by (simp add: result_ok_def)
next
  case False
  then have p: "promise w = None" using assms(1) by (simp add: waiter_ok_def)
  show ?thesis
  proof (cases e)
    case (Notification m)
    then show ?thesis using result_ok_handler [OF assms(2) p] assms(2) by (simp add: deliver_def)
  next
    case Deadline
    then show ?thesis using p by (simp add: deadline_def finish_def result_ok_def)
  next
    case (SetTurnId v)
    then show ?thesis using p by (simp add: setTurnId_def result_ok_def)
  next
    case Dispose
    then show ?thesis using p by (simp add: dispose_def result_ok_def)
  qed
qed

lemma result_ok_run: "waiter_ok w \<Longrightarrow> result_ok w \<Longrightarrow> result_ok (waiter_run evs w)"
  by (induction evs arbitrary: w) (simp_all add: waiter_ok_step result_ok_step)

lemma result_ok_create: "result_ok (createTurnWaiter t ms)"
  by (simp add: result_ok_def createTurnWaiter_def)

lemma token_usage_last_snapshot:
  "token_usage (params_of m) =
     JObj [(''inputTokens'', field_or_zero (last_snapshot m) ''inputTokens''),
           (''outputTokens'', field_or_zero (last_snapshot m) ''outputTokens'')]"
  by (simp add: token_usage_def last_snapshot_def field_or_zero_def nullish_coalesce_def Let_def)

lemma success_result:
  assumes "promise (waiter_run evs (createTurnWaiter t ms)) = Some (Inr res)"
  shows "res = JObj [(''text'', JStr (resolved_text (accepted_log evs (createTurnWaiter t ms)))),
                     (''usage'', resolved_usage (accepted_log evs (createTurnWaiter t ms)))]"
proof -
  define w0 where "w0 = createTurnWaiter t ms"
  define w where "w = waiter_run evs w0"
  have "result_ok w"
    unfolding w_def w0_def using waiter_ok_create result_ok_create by (rule result_ok_run)
  then have r: "res = turn_result w" using assms by (simp add: result_ok_def w_def w0_def)
  have "tracks w0 []" unfolding w0_def by (rule tracks_create)
  then have "tracks w ([] @ accepted_log evs w0)" unfolding w_def by (rule tracks_run)
  then show ?thesis unfolding r w0_def [symmetric]
    by (simp add: tracks_def turn_result_def resolved_text_def resolved_usage_def
        token_usage_last_snapshot)
qed

lemma settled_run:
  assumes "waiter_ok w" and "settled w"
  shows "promise (waiter_run evs w) = promise w \<and> settled (waiter_run evs w) \<and>
         off_calls (waiter_run evs w) = off_calls w \<and>
         settle_calls (waiter_run evs w) = settle_calls w"
  using assms
proof (induction evs arbitrary: w)
  case Nil
  then show ?case by simp
next
  case (Cons e es)
  have s: "promise (waiter_step e w) = promise w \<and> settled (waiter_step e w) \<and>
           off_calls (waiter_step e w) = off_calls w \<and>
           settle_calls (waiter_step e w) = settle_calls w"
    using settled_step [OF Cons.prems, of e] by simp
  have "waiter_ok (waiter_step e w)" using Cons.prems(1) by (rule waiter_ok_step)
  then show ?case using Cons.IH [of "waiter_step e w"] s by simp
qed

section \<open>The client\<close>

subsection \<open>JSON text of a value\<close>

definition hex_digit :: "nat \<Rightarrow> char" where
  "hex_digit n = (if n < 10 then char_of (48 + n) else char_of (87 + n))"

text \<open>How \<^verbatim>\<open>JSON.stringify\<close> writes one character of a string.\<close>

definition json_escape :: "char \<Rightarrow> string" where
  "json_escape c =
     (if c = CHR 0x22 then [CHR 0x5C, CHR 0x22]
      else if c = CHR 0x5C then [CHR 0x5C, CHR 0x5C]
      else if c = CHR 0x08 then [CHR 0x5C, CHR ''b'']
      else if c = CHR 0x0C then [CHR 0x5C, CHR ''f'']
      else if c = CHR 0x0A then [CHR 0x5C, CHR ''n'']
      else if c = CHR 0x0D then [CHR 0x5C, CHR ''r'']
      else if c = CHR 0x09 then [CHR 0x5C, CHR ''t'']
      else if of_char c < (32 :: nat) then
        [CHR 0x5C, CHR ''u'', CHR ''0'', CHR ''0'',
         hex_digit (of_char c div 16), hex_digit (of_char c mod 16)]
      else [c])"

definition json_quote :: "string \<Rightarrow> string" where
  "json_quote s = [CHR 0x22] @ concat (map json_escape s) @ [CHR 0x22]"

text \<open>
  \<^verbatim>\<open>JSON.stringify(v)\<close> for a value that is not undefined: an undefined element of
  an array is written as null, a property whose value is undefined is left out.
\<close>

fun json_stringify :: "js \<Rightarrow> string" where
  "json_stringify JUndefined = ''null''"
| "json_stringify JNull = ''null''"
| "json_stringify (JBool b) = (if b then ''true'' else ''false'')"
| "json_stringify (JNum n) = string_of_int n"
| "json_stringify (JStr s) = json_quote s"
| "json_stringify (JArr xs) = ''['' @ join '','' (map json_stringify xs) @ '']''"
| "json_stringify (JObj kvs) =
     ''{'' @ join '','' (map (\<lambda>kv. json_quote (fst kv) @ '':'' @ json_stringify (snd kv))
                            (filter (\<lambda>kv. snd kv \<noteq> JUndefined) kvs)) @ ''}''"

text \<open>\<^verbatim>\<open>messageFromJsonRpcError(error)\<close>\<close>

definition messageFromJsonRpcError :: "js \<Rightarrow> string" where
  "messageFromJsonRpcError error =
     (if \<not> truthy error then ''Unknown JSON-RPC error''
      else if is_string error then string_or_empty error
      else if is_string (get_prop error ''message'') then string_or_empty (get_prop error ''message'')
      else json_stringify error)"

subsection \<open>Answers to the requests of the server\<close>

text \<open>\<^verbatim>\<open>defaultToolAnswer(question)\<close>; reading a property of null or undefined throws.\<close>

definition defaultToolAnswer :: "js \<Rightarrow> exn + js" where
  "defaultToolAnswer question =
     (case member question ''options'' of
        Inl e \<Rightarrow> Inl e
      | Inr opts \<Rightarrow>
          (case opts of
             JArr (first # others) \<Rightarrow>
               (case member first ''label'' of
                  Inl e \<Rightarrow> Inl e
                | Inr l \<Rightarrow> Inr (JObj [(''answers'', JArr [l])]))
           | _ \<Rightarrow>
               Inr (JObj [(''answers'',
                      JArr [if truthy (get_prop question ''isOther'') then JStr ''other''
                            else JStr ''yes''])])))"

definition makeServerRequestUnsupportedError :: "string \<Rightarrow> js" where
  "makeServerRequestUnsupportedError method =
     JObj [(''code'', JNum (- 32000)),
           (''message'', JStr (''Unsupported server request method: '' @ method))]"

text \<open>
  What \<^verbatim>\<open>for (const question of v)\<close> iterates over: the elements of an array, the
  characters of a string, and a TypeError for a value that is not iterable.
\<close>

fun iterate :: "js \<Rightarrow> exn + js list" where
  "iterate (JArr xs) = Inr xs"
| "iterate (JStr s) = Inr (map (\<lambda>c. JStr [c]) s)"
| "iterate _ = Inl TypeError"

text \<open>
  \<^verbatim>\<open>answers[key] = v\<close> on an object that started as \<^verbatim>\<open>{}\<close>: the property is
  replaced where it stands or added at the end. The key \<^verbatim>\<open>__proto__\<close> is the
  accessor of \<^verbatim>\<open>Object.prototype\<close>: assigning an object to it changes the prototype and
  adds no property.
\<close>

definition assign :: "(string \<times> js) list \<Rightarrow> string \<Rightarrow> js \<Rightarrow> (string \<times> js) list" where
  "assign obj k v = (if k = ''__proto__'' then obj else AList.update k v obj)"

text \<open>The loop \<^verbatim>\<open>answers[question.id] = defaultToolAnswer(question)\<close>.\<close>

fun answer_questions :: "(string \<times> js) list \<Rightarrow> js list \<Rightarrow> exn + (string \<times> js) list" where
  "answer_questions answers [] = Inr answers"
| "answer_questions answers (question # questions) =
     (case member question ''id'' of
        Inl e \<Rightarrow> Inl e
      | Inr qid \<Rightarrow>
          (case defaultToolAnswer question of
             Inl e \<Rightarrow> Inl e
           | Inr a \<Rightarrow> answer_questions (assign answers (js_to_string qid) a) questions))"

text \<open>\<^verbatim>\<open>#buildServerRequestResult(method, params)\<close>\<close>

definition buildServerRequestResult :: "string \<Rightarrow> js \<Rightarrow> exn + js" where
  "buildServerRequestResult method params =
     (if method = ''item/commandExecution/requestApproval'' then Inr (JObj [(''decision'', JStr ''accept'')])
      else if method = ''item/fileChange/requestApproval'' then Inr (JObj [(''decision'', JStr ''accept'')])
      else if method = ''execCommandApproval'' then Inr (JObj [(''decision'', JStr ''approved'')])
      else if method = ''applyPatchApproval'' then Inr (JObj [(''decision'', JStr ''approved'')])
      else if method = ''item/tool/requestUserInput'' then
        (case iterate (nullish_coalesce (opt_member params ''questions'') (JArr [])) of
           Inl e \<Rightarrow> Inl e
         | Inr questions \<Rightarrow>
             (case answer_questions [] questions of
                Inl e \<Rightarrow> Inl e
              | Inr answers \<Rightarrow> Inr (JObj [(''answers'', JObj answers)])))
      else if method = ''item/tool/call'' then
        Inr (JObj [(''success'', JBool False),
                   (''contentItems'',
                    JArr [JObj [(''type'', JStr ''inputText''),
                                (''text'', JStr ''Dynamic tool calls are not supported by this gateway.'')]])])
      else Inl (Error (''Unsupported server request: '' @ method)))"

subsection \<open>The state of the client and of the runtime around it\<close>

text \<open>The child process: \<^verbatim>\<open>child.killed\<close> and \<^verbatim>\<open>child.stdin.writable\<close>.\<close>

record child_process =
  killed :: bool
  stdin_writable :: bool

text \<open>The options of the configuration the client reads.\<close>

record config =
  workdir :: string
  autoApprove :: bool
  sandboxMode :: string
  autoRestart :: bool

text \<open>
  One run of \<^verbatim>\<open>#startInternal()\<close> and the promise \<^verbatim>\<open>startPromise\<close> made for it.
  The run waits for the response to \<^verbatim>\<open>initialize\<close> or to \<^verbatim>\<open>thread/start\<close> (a
  request id), or has returned or thrown. The promise is pending (\<open>None\<close>) or settled.
\<close>

datatype start_phase = AwaitInitialize int | AwaitThreadStart int | StartDone "exn + unit"

record attempt =
  si_phase :: start_phase
  sp_state :: "(exn + unit) option"

text \<open>
  One call of \<^verbatim>\<open>ensureReady()\<close>: it returned at once because the client was ready,
  it returned the \<^verbatim>\<open>startPromise\<close> of an attempt in flight, it created the attempt and
  waits for it inside \<^verbatim>\<open>try\<close>, or it has run its \<^verbatim>\<open>finally\<close> block and settled.
\<close>

datatype ready_call = Ready | Joined nat | Initiator nat | Released "exn + unit"

text \<open>
  One call of \<^verbatim>\<open>queueTurn\<close>. The task is not yet started, or \<^verbatim>\<open>#runTurn\<close> waits for
  \<^verbatim>\<open>ensureReady()\<close>, for the response to \<^verbatim>\<open>turn/start\<close>, or for the promise of
  its waiter, or has returned or thrown. \<open>result\<close> is the state of the promise
  \<^verbatim>\<open>result\<close> that \<^verbatim>\<open>queueTurn\<close> returns, \<open>chained\<close> says whether the promise
  \<^verbatim>\<open>result.then(() => undefined, () => undefined)\<close>, which becomes \<^verbatim>\<open>turnQueue\<close>, is
  fulfilled.
\<close>

datatype turn_phase =
    Queued
  | AwaitReady ready_call
  | AwaitTurnStart int
  | AwaitWaiter
  | Finished "exn + js"

record turn =
  inputText :: string
  timeoutMs :: int
  turn_model :: js
  phase :: turn_phase
  turn_waiter :: "waiter option"
  result :: "(exn + js) option"
  chained :: bool

text \<open>
  The fields of \<^verbatim>\<open>CodexAppServerClient\<close> and the objects of the runtime they refer to.
  \<^item> \<open>pendingRequests\<close> is the Map in insertion order. An entry holds the \<^verbatim>\<open>resolve\<close> and
    \<^verbatim>\<open>reject\<close> of the promise of its request and the id of its timer; the promise and
    the timer are named by the request id here, and the entry keeps the method, which
    the callback of the timer has in scope.
  \<^item> \<open>settle_log\<close> lists the calls of \<^verbatim>\<open>resolve\<close> and \<^verbatim>\<open>reject\<close> of request promises,
    in order. A promise keeps its first settlement, so the state of the promise of
    request \<open>id\<close> is the first entry for \<open>id\<close>.
  \<^item> \<open>removed\<close> lists the ids taken out of \<open>pendingRequests\<close>, in order.
  \<^item> \<open>request_timers\<close> are the request timers that are set and have not fired, each
    with the method its callback has in scope.
  \<^item> \<open>written\<close> are the messages written to the standard input of the child.
  \<^item> \<open>startPromise\<close> and \<open>startReject\<close> name an attempt of \<open>attempts\<close>.
  \<^item> The set \<^verbatim>\<open>notificationListeners\<close> holds the handlers of the waiters of \<open>turns\<close>
    whose \<open>subscribed\<close> is true; \<^verbatim>\<open>turnQueue\<close> is the chained promise of the last turn.
  \<^item> \<open>live_children\<close> counts the processes that have been spawned and have not exited,
    \<open>restart_timers\<close> the restart timers that are set, \<open>calls\<close> are the calls of
    \<^verbatim>\<open>ensureReady()\<close> made from outside \<^verbatim>\<open>#runTurn\<close>.
  \<^item> \<open>crashed\<close>: an exception left an event handler uncaught, which ends the process.
\<close>

record client =
  config :: config
  child :: "child_process option"
  pendingRequests :: "(int \<times> string) list"
  requestCounter :: int
  threadId :: js
  startPromise :: "nat option"
  startReject :: "nat option"
  isStopping :: bool
  settle_log :: "(int \<times> (exn + js)) list"
  removed :: "int list"
  request_timers :: "(int \<times> string) list"
  written :: "js list"
  attempts :: "attempt list"
  calls :: "ready_call list"
  turns :: "turn list"
  live_children :: nat
  restart_timers :: nat
  crashed :: bool

definition new_client :: "config \<Rightarrow> client" where
  "new_client cfg =
     \<lparr> config = cfg, child = None, pendingRequests = [], requestCounter = 1, threadId = JNull,
       startPromise = None, startReject = None, isStopping = False,
       settle_log = [], removed = [], request_timers = [], written = [],
       attempts = [], calls = [], turns = [], live_children = 0, restart_timers = 0,
       crashed = False \<rparr>"

subsection \<open>Writing to the child\<close>

definition child_running :: "client \<Rightarrow> bool" where
  "child_running s = (case child s of None \<Rightarrow> False | Some c \<Rightarrow> \<not> killed c)"

definition child_writable :: "client \<Rightarrow> bool" where
  "child_writable s = (case child s of None \<Rightarrow> False | Some c \<Rightarrow> \<not> killed c \<and> stdin_writable c)"

text \<open>\<^verbatim>\<open>#writeMessage(message)\<close>\<close>

definition writeMessage :: "js \<Rightarrow> client \<Rightarrow> exn + client" where
  "writeMessage message s =
     (if \<not> child_writable s then Inl (Error ''Codex app-server stdin is not writable.'')
      else Inr (s \<lparr> written := written s @ [message] \<rparr>))"

text \<open>\<^verbatim>\<open>#sendNotification(method, params)\<close>; \<open>params\<close> is left out when undefined.\<close>

definition sendNotification :: "string \<Rightarrow> js \<Rightarrow> client \<Rightarrow> exn + client" where
  "sendNotification method params s =
     writeMessage (JObj ([(''jsonrpc'', JStr ''2.0''), (''method'', JStr method)]
                         @ (if params \<noteq> JUndefined then [(''params'', params)] else []))) s"

text \<open>
  \<^verbatim>\<open>#handleServerRequest(message)\<close>. An exception of the write in the \<^verbatim>\<open>catch\<close>
  block leaves the function.
\<close>

definition handleServerRequest :: "js \<Rightarrow> client \<Rightarrow> exn + client" where
  "handleServerRequest message s =
     (let id = get_prop message ''id'';
          method = string_or_empty (get_prop message ''method'');
          params = get_prop message ''params'';
          failure = JObj [(''jsonrpc'', JStr ''2.0''), (''id'', id),
                          (''error'', makeServerRequestUnsupportedError method)]
      in case buildServerRequestResult method params of
           Inl e \<Rightarrow> writeMessage failure s
         | Inr r \<Rightarrow>
             (case writeMessage (JObj [(''jsonrpc'', JStr ''2.0''), (''id'', id), (''result'', r)]) s of
                Inl e \<Rightarrow> writeMessage failure s
              | Inr s' \<Rightarrow> Inr s'))"

subsection \<open>The correlation table\<close>

text \<open>A call of \<^verbatim>\<open>resolve\<close> or \<^verbatim>\<open>reject\<close> of the promise of a request, and its state.\<close>

definition settle :: "int \<Rightarrow> exn + js \<Rightarrow> client \<Rightarrow> client" where
  "settle rid r s = s \<lparr> settle_log := settle_log s @ [(rid, r)] \<rparr>"

definition request_state :: "client \<Rightarrow> int \<Rightarrow> (exn + js) option" where
  "request_state s rid = map_of (settle_log s) rid"

definition clearTimeout :: "int \<Rightarrow> client \<Rightarrow> client" where
  "clearTimeout rid s = s \<lparr> request_timers := AList.delete rid (request_timers s) \<rparr>"

text \<open>\<^verbatim>\<open>this.pendingRequests.delete(id)\<close>\<close>

definition delete_pending :: "int \<Rightarrow> client \<Rightarrow> client" where
  "delete_pending rid s =
     (if rid \<in> fst ` set (pendingRequests s) then
        s \<lparr> pendingRequests := AList.delete rid (pendingRequests s), removed := removed s @ [rid] \<rparr>
      else s)"

definition request_payload :: "int \<Rightarrow> string \<Rightarrow> js \<Rightarrow> js" where
  "request_payload rid method params =
     JObj [(''jsonrpc'', JStr ''2.0''), (''id'', JNum rid), (''method'', JStr method),
           (''params'', params)]"

text \<open>
  \<^verbatim>\<open>#sendRequest(method, params)\<close>: it throws when no child is running, and otherwise
  returns the promise of the request, named by its id.
\<close>

definition sendRequest :: "string \<Rightarrow> js \<Rightarrow> client \<Rightarrow> exn + (int \<times> client)" where
  "sendRequest method params s =
     (if \<not> child_running s then Inl (Error ''Codex process is not running.'')
      else
        let rid = requestCounter s;
            s1 = s \<lparr> requestCounter := rid + 1,
                     request_timers := request_timers s @ [(rid, method)],
                     pendingRequests := AList.update rid method (pendingRequests s) \<rparr>
        in case writeMessage (request_payload rid method params) s1 of
             Inr s2 \<Rightarrow> Inr (rid, s2)
           | Inl e \<Rightarrow> Inr (rid, settle rid (Inl e) (delete_pending rid (clearTimeout rid s1))))"

text \<open>The callback of the timer of a request; a timer that was cleared never fires.\<close>

definition request_timeout :: "int \<Rightarrow> client \<Rightarrow> client" where
  "request_timeout rid s =
     (case map_of (request_timers s) rid of
        None \<Rightarrow> s
      | Some method \<Rightarrow>
          settle rid (Inl (Error (''Codex request timed out for method '' @ method @ ''.'')))
            (delete_pending rid (s \<lparr> request_timers := AList.delete rid (request_timers s) \<rparr>)))"

text \<open>
  \<^verbatim>\<open>#handleResponse(message)\<close>. The keys of the Map are numbers, so only a number
  finds an entry.
\<close>

definition handleResponse :: "js \<Rightarrow> client \<Rightarrow> client" where
  "handleResponse message s =
     (case get_prop message ''id'' of
        JNum rid \<Rightarrow>
          (case map_of (pendingRequests s) rid of
             None \<Rightarrow> s
           | Some pending \<Rightarrow>
               (let s1 = delete_pending rid (clearTimeout rid s) in
                if has_own message ''error'' then
                  settle rid (Inl (Error (messageFromJsonRpcError (get_prop message ''error'')))) s1
                else settle rid (Inr (get_prop message ''result'')) s1))
      | _ \<Rightarrow> s)"

text \<open>
  The loop over \<^verbatim>\<open>pendingRequests.values()\<close> followed by \<^verbatim>\<open>pendingRequests.clear()\<close>,
  as in \<^verbatim>\<open>stop()\<close> and in the handler of \<^verbatim>\<open>exit\<close>.
\<close>

definition reject_all :: "exn \<Rightarrow> client \<Rightarrow> client" where
  "reject_all e s =
     (let s1 = fold (\<lambda>entry s'. settle (fst entry) (Inl e) (clearTimeout (fst entry) s'))
                    (pendingRequests s) s
      in s1 \<lparr> removed := removed s1 @ map fst (pendingRequests s1), pendingRequests := [] \<rparr>)"

subsection \<open>The life of the child process\<close>

text \<open>\<^verbatim>\<open>child.kill("SIGTERM")\<close> sets \<^verbatim>\<open>child.killed\<close>.\<close>

definition kill_child :: "client \<Rightarrow> client" where
  "kill_child s = (case child s of None \<Rightarrow> s | Some c \<Rightarrow> s \<lparr> child := Some (c \<lparr> killed := True \<rparr>) \<rparr>)"

text \<open>\<^verbatim>\<open>stop()\<close>\<close>

definition stop :: "client \<Rightarrow> client" where
  "stop s =
     (let s1 = reject_all (Error ''Codex client is shutting down.'') (s \<lparr> isStopping := True \<rparr>);
          s2 = (if child_running s1 then kill_child s1 else s1)
      in s2 \<lparr> child := None, threadId := JNull \<rparr>)"

text \<open>\<^verbatim>\<open>#spawnProcess()\<close>; a failure to spawn arrives later as the event \<^verbatim>\<open>error\<close>.\<close>

definition spawnProcess :: "client \<Rightarrow> client" where
  "spawnProcess s =
     (if child_running s then s
      else s \<lparr> child := Some \<lparr> killed = False, stdin_writable = True \<rparr>,
               live_children := live_children s + 1 \<rparr>)"

text \<open>\<^verbatim>\<open>#resetSession(reason)\<close>\<close>

definition resetSession :: "client \<Rightarrow> client" where
  "resetSession s =
     (let s1 = s \<lparr> threadId := JNull \<rparr> in if child_running s1 then kill_child s1 else s1)"

text \<open>The handler of the event \<^verbatim>\<open>exit\<close> of a child.\<close>

definition on_exit :: "client \<Rightarrow> client" where
  "on_exit s =
     (let s1 = reject_all (Error ''Codex app-server exited.'') (s \<lparr> threadId := JNull \<rparr>);
          s2 = s1 \<lparr> child := None \<rparr>
      in if isStopping s2 \<or> \<not> autoRestart (config s2) then s2
         else s2 \<lparr> restart_timers := restart_timers s2 + 1 \<rparr>)"

subsection \<open>Becoming ready\<close>

definition initialize_params :: js where
  "initialize_params =
     JObj [(''clientInfo'', JObj [(''name'', JStr ''codex-gateway''), (''version'', JStr ''0.1.0'')]),
           (''capabilities'', JNull)]"

definition thread_start_params :: "config \<Rightarrow> js" where
  "thread_start_params cfg =
     JObj [(''cwd'', JStr (workdir cfg)),
           (''approvalPolicy'', JStr (if autoApprove cfg then ''never'' else ''on-request'')),
           (''sandbox'', JStr (sandboxMode cfg)),
           (''experimentalRawEvents'', JBool False),
           (''persistExtendedHistory'', JBool False)]"

text \<open>\<^verbatim>\<open>#startInternal()\<close> up to its first \<^verbatim>\<open>await\<close>.\<close>

definition startInternal :: "client \<Rightarrow> start_phase \<times> client" where
  "startInternal s =
     (if isStopping s then (StartDone (Inl (Error ''Codex client is stopping.'')), s)
      else
        let s1 = spawnProcess s in
        case sendRequest ''initialize'' initialize_params s1 of
          Inl e \<Rightarrow> (StartDone (Inl e), s1)
        | Inr (rid, s2) \<Rightarrow> (AwaitInitialize rid, s2))"

definition set_start_phase :: "nat \<Rightarrow> start_phase \<Rightarrow> client \<Rightarrow> client" where
  "set_start_phase k ph s = s \<lparr> attempts := (attempts s)[k := (attempts s ! k) \<lparr> si_phase := ph \<rparr>] \<rparr>"

text \<open>
  \<^verbatim>\<open>#startInternal()\<close> of attempt \<open>k\<close> from an \<^verbatim>\<open>await\<close> on: it continues once the
  promise of the request it waits for is settled.
\<close>

definition resume_start :: "nat \<Rightarrow> client \<Rightarrow> client" where
  "resume_start k s =
     (if k \<ge> length (attempts s) then s
      else case si_phase (attempts s ! k) of
        AwaitInitialize rid \<Rightarrow>
          (case request_state s rid of
             None \<Rightarrow> s
           | Some (Inl e) \<Rightarrow> set_start_phase k (StartDone (Inl e)) s
           | Some (Inr response) \<Rightarrow>
               (case sendNotification ''initialized'' JUndefined s of
                  Inl e \<Rightarrow> set_start_phase k (StartDone (Inl e)) s
                | Inr s1 \<Rightarrow>
                    (case sendRequest ''thread/start'' (thread_start_params (config s1)) s1 of
                       Inl e \<Rightarrow> set_start_phase k (StartDone (Inl e)) s1
                     | Inr (rid2, s2) \<Rightarrow> set_start_phase k (AwaitThreadStart rid2) s2)))
      | AwaitThreadStart rid \<Rightarrow>
          (case request_state s rid of
             None \<Rightarrow> s
           | Some (Inl e) \<Rightarrow> set_start_phase k (StartDone (Inl e)) s
           | Some (Inr response) \<Rightarrow>
               (let s1 = s \<lparr> threadId := opt_member (opt_member response ''thread'') ''id'' \<rparr> in
                if \<not> truthy (threadId s1) then
                  set_start_phase k (StartDone (Inl (Error ''thread/start did not return a thread id.''))) s1
                else set_start_phase k (StartDone (Inr ())) s1))
      | StartDone r \<Rightarrow> s)"

text \<open>A call of \<^verbatim>\<open>resolve\<close> or \<^verbatim>\<open>reject\<close> of the start promise of attempt \<open>k\<close>.\<close>

definition settle_start_promise :: "nat \<Rightarrow> exn + unit \<Rightarrow> client \<Rightarrow> client" where
  "settle_start_promise k r s =
     (if k < length (attempts s) \<and> sp_state (attempts s ! k) = None then
        s \<lparr> attempts := (attempts s)[k := (attempts s ! k) \<lparr> sp_state := Some r \<rparr>] \<rparr>
      else s)"

text \<open>
  The reaction \<^verbatim>\<open>.then(resolve, reject)\<close> on the promise of \<^verbatim>\<open>#startInternal()\<close>:
  it runs once that promise is settled.
\<close>

definition settle_start :: "nat \<Rightarrow> client \<Rightarrow> client" where
  "settle_start k s =
     (if k \<ge> length (attempts s) then s
      else case si_phase (attempts s ! k) of
        StartDone r \<Rightarrow> settle_start_promise k r s
      | _ \<Rightarrow> s)"

text \<open>The handler of the event \<^verbatim>\<open>error\<close> of a child.\<close>

definition on_child_error :: "string \<Rightarrow> client \<Rightarrow> client" where
  "on_child_error text s =
     (case startReject s of
        None \<Rightarrow> s
      | Some k \<Rightarrow> (settle_start_promise k (Inl (Error text)) s) \<lparr> startReject := None \<rparr>)"

definition client_ready :: "client \<Rightarrow> bool" where
  "client_ready s = (truthy (threadId s) \<and> child_running s)"

text \<open>\<^verbatim>\<open>ensureReady()\<close> up to its \<^verbatim>\<open>await\<close> or \<^verbatim>\<open>return\<close>.\<close>

definition ensureReady :: "client \<Rightarrow> ready_call \<times> client" where
  "ensureReady s =
     (if client_ready s then (Ready, s)
      else case startPromise s of
        Some k \<Rightarrow> (Joined k, s)
      | None \<Rightarrow>
          (let k = length (attempts s);
               (ph, s1) = startInternal (s \<lparr> startReject := Some k \<rparr>)
           in (Initiator k,
               s1 \<lparr> attempts := attempts s1 @ [\<lparr> si_phase = ph, sp_state = None \<rparr>],
                    startPromise := Some k \<rparr>)))"

definition start_promise_state :: "client \<Rightarrow> nat \<Rightarrow> (exn + unit) option" where
  "start_promise_state s k = (if k < length (attempts s) then sp_state (attempts s ! k) else None)"

text \<open>The state of the promise a call of \<^verbatim>\<open>ensureReady()\<close> returned.\<close>

definition call_outcome :: "client \<Rightarrow> ready_call \<Rightarrow> (exn + unit) option" where
  "call_outcome s c =
     (case c of
        Ready \<Rightarrow> Some (Inr ())
      | Joined k \<Rightarrow> start_promise_state s k
      | Initiator k \<Rightarrow> None
      | Released r \<Rightarrow> Some r)"

text \<open>
  The \<^verbatim>\<open>finally\<close> block of the call that created the attempt: it runs once the start
  promise is settled, and the call settles with the same outcome.
\<close>

definition release :: "ready_call \<Rightarrow> client \<Rightarrow> ready_call \<times> client" where
  "release c s =
     (case c of
        Initiator k \<Rightarrow>
          (case start_promise_state s k of
             None \<Rightarrow> (c, s)
           | Some r \<Rightarrow> (Released r, s \<lparr> startReject := None, startPromise := None \<rparr>))
      | _ \<Rightarrow> (c, s))"

subsection \<open>Turns\<close>

text \<open>\<^verbatim>\<open>queueTurn(inputText, timeoutMs, model)\<close>\<close>

definition queueTurn :: "string \<Rightarrow> int \<Rightarrow> js \<Rightarrow> client \<Rightarrow> client" where
  "queueTurn input limit model s =
     s \<lparr> turns := turns s @
           [\<lparr> inputText = input, timeoutMs = limit, turn_model = model, phase = Queued,
              turn_waiter = None, result = None, chained = False \<rparr>] \<rparr>"

definition set_turn :: "nat \<Rightarrow> turn \<Rightarrow> client \<Rightarrow> client" where
  "set_turn i t s = s \<lparr> turns := (turns s)[i := t] \<rparr>"

text \<open>
  The reaction \<^verbatim>\<open>turnQueue.then(task, task)\<close>: the task of turn \<open>i\<close> is called once the
  promise that was \<^verbatim>\<open>turnQueue\<close> when the turn was queued is settled, whichever way.
  For the first turn that is \<^verbatim>\<open>Promise.resolve()\<close>. The task runs \<^verbatim>\<open>#runTurn\<close> up to
  its first \<^verbatim>\<open>await\<close>.
\<close>

definition run_task :: "nat \<Rightarrow> client \<Rightarrow> client" where
  "run_task i s =
     (if i < length (turns s) \<and> phase (turns s ! i) = Queued \<and>
         (i = 0 \<or> chained (turns s ! (i - 1)))
      then (let (c, s1) = ensureReady s in set_turn i ((turns s1 ! i) \<lparr> phase := AwaitReady c \<rparr>) s1)
      else s)"

definition turn_start_params :: "js \<Rightarrow> turn \<Rightarrow> js" where
  "turn_start_params thread t =
     JObj ([(''threadId'', thread),
            (''input'', JArr [JObj [(''type'', JStr ''text''), (''text'', JStr (inputText t)),
                                    (''text_elements'', JArr [])]])]
           @ (if is_string (turn_model t) \<and> trim (string_or_empty (turn_model t)) \<noteq> []
              then [(''model'', JStr (trim (string_or_empty (turn_model t))))] else []))"

text \<open>\<^verbatim>\<open>#runTurn\<close> of turn \<open>i\<close> after \<^verbatim>\<open>await this.ensureReady()\<close> has returned.\<close>

definition start_turn :: "nat \<Rightarrow> client \<Rightarrow> client" where
  "start_turn i s =
     (let t = turns s ! i in
      if \<not> truthy (threadId s) then set_turn i (t \<lparr> phase := Finished (Inl (Error ''No active thread id.'')) \<rparr>) s
      else
        let w = createTurnWaiter (threadId s) (timeoutMs t) in
        case sendRequest ''turn/start'' (turn_start_params (threadId s) t) s of
          Inl e \<Rightarrow> set_turn i (t \<lparr> turn_waiter := Some (dispose w), phase := Finished (Inl e) \<rparr>) s
        | Inr (rid, s1) \<Rightarrow> set_turn i (t \<lparr> turn_waiter := Some w, phase := AwaitTurnStart rid \<rparr>) s1)"

text \<open>
  \<^verbatim>\<open>#runTurn\<close> of turn \<open>i\<close> from an \<^verbatim>\<open>await\<close> on: it continues once the promise it
  waits for is settled. The \<^verbatim>\<open>finally\<close> block disposes of the waiter.
\<close>

definition resume_turn :: "nat \<Rightarrow> client \<Rightarrow> client" where
  "resume_turn i s =
     (if i \<ge> length (turns s) then s
      else
        let t = turns s ! i in
        case phase t of
          Queued \<Rightarrow> s
        | AwaitReady c \<Rightarrow>
            (case c of
               Initiator k \<Rightarrow>
                 (let (c', s1) = release c s in set_turn i (t \<lparr> phase := AwaitReady c' \<rparr>) s1)
             | _ \<Rightarrow>
                 (case call_outcome s c of
                    None \<Rightarrow> s
                  | Some (Inl e) \<Rightarrow> set_turn i (t \<lparr> phase := Finished (Inl e) \<rparr>) s
                  | Some (Inr u) \<Rightarrow> start_turn i s))
        | AwaitTurnStart rid \<Rightarrow>
            (case request_state s rid of
               None \<Rightarrow> s
             | Some (Inl e) \<Rightarrow>
                 set_turn i (t \<lparr> turn_waiter := map_option dispose (turn_waiter t),
                                 phase := Finished (Inl e) \<rparr>) s
             | Some (Inr response) \<Rightarrow>
                 (let v = opt_member (opt_member response ''turn'') ''id'' in
                  set_turn i (t \<lparr> turn_waiter :=
                                    map_option (\<lambda>w. if truthy v then setTurnId v w else w) (turn_waiter t),
                                  phase := AwaitWaiter \<rparr>) s))
        | AwaitWaiter \<Rightarrow>
            (case turn_waiter t of
               None \<Rightarrow> s
             | Some w \<Rightarrow>
                 (case promise w of
                    None \<Rightarrow> s
                  | Some r \<Rightarrow> set_turn i (t \<lparr> turn_waiter := Some (dispose w), phase := Finished r \<rparr>) s))
        | Finished r \<Rightarrow> s)"

text \<open>The promise \<^verbatim>\<open>result\<close> of turn \<open>i\<close> takes the outcome of \<^verbatim>\<open>#runTurn\<close>.\<close>

definition adopt_result :: "nat \<Rightarrow> client \<Rightarrow> client" where
  "adopt_result i s =
     (if i \<ge> length (turns s) then s
      else case phase (turns s ! i) of
        Finished r \<Rightarrow>
          (if result (turns s ! i) = None then set_turn i ((turns s ! i) \<lparr> result := Some r \<rparr>) s else s)
      | _ \<Rightarrow> s)"

text \<open>
  The reaction \<^verbatim>\<open>result.then(() => undefined, () => undefined)\<close>: the next
  \<^verbatim>\<open>turnQueue\<close> is fulfilled once \<^verbatim>\<open>result\<close> is settled, whichever way.
\<close>

definition chain_queue :: "nat \<Rightarrow> client \<Rightarrow> client" where
  "chain_queue i s =
     (if i < length (turns s) \<and> result (turns s ! i) \<noteq> None
      then set_turn i ((turns s ! i) \<lparr> chained := True \<rparr>) s
      else s)"

subsection \<open>Events\<close>

text \<open>\<^verbatim>\<open>#emitNotification(message)\<close>: every listener in the set is called.\<close>

definition emitNotification :: "js \<Rightarrow> client \<Rightarrow> client" where
  "emitNotification message s =
     s \<lparr> turns := map (\<lambda>t. t \<lparr> turn_waiter := map_option (deliver message) (turn_waiter t) \<rparr>) (turns s) \<rparr>"

text \<open>
  \<^verbatim>\<open>#handleLine(line)\<close> for a line that is not blank: \<open>None\<close> when \<^verbatim>\<open>JSON.parse\<close>
  throws, the parsed value otherwise. \<^verbatim>\<open>hasOwnProperty.call\<close> throws on null.
\<close>

definition handleLine :: "js option \<Rightarrow> client \<Rightarrow> exn + client" where
  "handleLine parsed s =
     (case parsed of
        None \<Rightarrow> Inr (resetSession s)
      | Some message \<Rightarrow>
          if nullish message then Inl TypeError
          else
            let hasId = has_own message ''id'';
                hasMethod = is_string (get_prop message ''method'');
                hasResult = has_own message ''result'';
                hasError = has_own message ''error''
            in if hasId \<and> hasMethod \<and> \<not> hasResult \<and> \<not> hasError then handleServerRequest message s
               else if hasId \<and> (hasResult \<or> hasError) \<and> \<not> hasMethod then Inr (handleResponse message s)
               else if hasMethod then Inr (emitNotification message s)
               else Inr s)"

text \<open>The callback of the deadline timer of the waiter of turn \<open>i\<close>.\<close>

definition turn_timeout :: "nat \<Rightarrow> client \<Rightarrow> client" where
  "turn_timeout i s =
     (if i < length (turns s)
      then set_turn i ((turns s ! i) \<lparr> turn_waiter := map_option deadline (turn_waiter (turns s ! i)) \<rparr>) s
      else s)"

text \<open>A call of \<^verbatim>\<open>ensureReady()\<close> from outside \<^verbatim>\<open>#runTurn\<close>, and its continuation.\<close>

definition external_ensureReady :: "client \<Rightarrow> client" where
  "external_ensureReady s = (let (c, s1) = ensureReady s in s1 \<lparr> calls := calls s1 @ [c] \<rparr>)"

definition resume_call :: "nat \<Rightarrow> client \<Rightarrow> client" where
  "resume_call j s =
     (if j < length (calls s)
      then (let (c, s1) = release (calls s ! j) s in s1 \<lparr> calls := (calls s1)[j := c] \<rparr>)
      else s)"

text \<open>The callback of the restart timer: \<^verbatim>\<open>this.ensureReady().catch(...)\<close>.\<close>

definition restart :: "client \<Rightarrow> client" where
  "restart s =
     (if restart_timers s = 0 then s
      else external_ensureReady (s \<lparr> restart_timers := restart_timers s - 1 \<rparr>))"

definition close_stdin :: "client \<Rightarrow> client" where
  "close_stdin s =
     (case child s of None \<Rightarrow> s | Some c \<Rightarrow> s \<lparr> child := Some (c \<lparr> stdin_writable := False \<rparr>) \<rparr>)"

text \<open>
  Everything that can happen to the client. The calls of its methods, the continuations
  and reactions the runtime runs as microtasks (each possible once the promise it waits
  for is settled, in any order), and the events of the child and of the timers.
\<close>

datatype event =
    QueueTurn string int js
  | EnsureReady
  | Stop
  | RunTask nat
  | ResumeTurn nat
  | AdoptResult nat
  | ChainQueue nat
  | ResumeStart nat
  | SettleStart nat
  | ResumeCall nat
  | Line "js option"
  | RequestTimeout int
  | TurnTimeout nat
  | ChildError string
  | ChildExit
  | StdinClosed
  | RestartTimer

fun handle :: "event \<Rightarrow> client \<Rightarrow> client" where
  "handle (QueueTurn input limit model) s = queueTurn input limit model s"
| "handle EnsureReady s = external_ensureReady s"
| "handle Stop s = stop s"
| "handle (RunTask i) s = run_task i s"
| "handle (ResumeTurn i) s = resume_turn i s"
| "handle (AdoptResult i) s = adopt_result i s"
| "handle (ChainQueue i) s = chain_queue i s"
| "handle (ResumeStart k) s = resume_start k s"
| "handle (SettleStart k) s = settle_start k s"
| "handle (ResumeCall j) s = resume_call j s"
| "handle (Line parsed) s = (case handleLine parsed s of Inl e \<Rightarrow> s \<lparr> crashed := True \<rparr> | Inr s' \<Rightarrow> s')"
| "handle (RequestTimeout rid) s = request_timeout rid s"
| "handle (TurnTimeout i) s = turn_timeout i s"
| "handle (ChildError text) s = on_child_error text s"
| "handle ChildExit s = (if live_children s = 0 then s else on_exit (s \<lparr> live_children := live_children s - 1 \<rparr>))"
| "handle StdinClosed s = close_stdin s"
| "handle RestartTimer s = restart s"

text \<open>After an uncaught exception the process is gone and nothing happens any more.\<close>

definition step :: "event \<Rightarrow> client \<Rightarrow> client" where
  "step ev s = (if crashed s then s else handle ev s)"

fun run :: "event list \<Rightarrow> client \<Rightarrow> client" where
  "run [] s = s"
| "run (ev # evs) s = run evs (step ev s)"

section \<open>Claims about the turn waiter\<close>

text \<open>
  C3. Settlement of a turn waiter is idempotent. In every state \<open>w\<close> a waiter reaches from
  its creation, \<^verbatim>\<open>resolvePromise\<close>/\<^verbatim>\<open>rejectPromise\<close> has been called at most once and
  \<^verbatim>\<open>off()\<close> at most once; once the waiter is settled the listener has been unsubscribed
  exactly once and the deadline timer is cleared; and whatever notifications, deadline
  or other events \<open>later\<close> follow, the promise keeps the result it has, and no further
  settlement or unsubscription happens.
\<close>

theorem waiter_settlement_idempotent:
  assumes "w = waiter_run evs (createTurnWaiter thread limit)"
  shows "settle_calls w \<le> 1 \<and> off_calls w \<le> 1 \<and>
         (promise w \<noteq> None \<longrightarrow> settled w) \<and>
         (settled w \<longrightarrow>
            off_calls w = 1 \<and> \<not> subscribed w \<and> \<not> timer_armed w \<and>
            promise (waiter_run later w) = promise w \<and>
            settle_calls (waiter_run later w) = settle_calls w \<and>
            off_calls (waiter_run later w) = 1)"
proof -
  have ok: "waiter_ok w" unfolding assms using waiter_ok_create by (rule waiter_ok_run)
  have a: "settle_calls w \<le> 1 \<and> off_calls w \<le> 1 \<and> (promise w \<noteq> None \<longrightarrow> settled w)"
    using ok unfolding waiter_ok_def by (cases "settled w") simp_all
  have b: "settled w \<longrightarrow> off_calls w = 1 \<and> \<not> subscribed w \<and> \<not> timer_armed w"
    using ok unfolding waiter_ok_def by simp
  have c: "settled w \<longrightarrow> promise (waiter_run later w) = promise w \<and>
            settle_calls (waiter_run later w) = settle_calls w \<and>
            off_calls (waiter_run later w) = off_calls w"
    using settled_run [OF ok, of later] by simp
  show ?thesis using a b c by simp
qed

text \<open>
  Witness for C3: the happy path of the specification settles the waiter with the text
  and the usage; a failed \<^verbatim>\<open>turn/completed\<close>, the deadline and an error after that
  leave the result as it is.
\<close>

theorem waiter_settlement_idempotent_witness:
  "settled (waiter_run happy_path (createTurnWaiter (JStr ''t1'') 5000)) \<and>
   promise (waiter_run [Notification (completed_msg ''failed''), Deadline,
                        Notification (error_msg ''boom'' False)]
             (waiter_run happy_path (createTurnWaiter (JStr ''t1'') 5000)))
     = promise (waiter_run happy_path (createTurnWaiter (JStr ''t1'') 5000)) \<and>
   promise (waiter_run happy_path (createTurnWaiter (JStr ''t1'') 5000))
     = Some (Inr (JObj [(''text'', JStr ''Hi there''),
          (''usage'', JObj [(''inputTokens'', JNum 3), (''outputTokens'', JNum 2)])]))"
proof -
  have s: "settled (waiter_run happy_path (createTurnWaiter (JStr ''t1'') 5000))"
    by code_simp
  have p: "promise (waiter_run happy_path (createTurnWaiter (JStr ''t1'') 5000))
     = Some (Inr (JObj [(''text'', JStr ''Hi there''),
          (''usage'', JObj [(''inputTokens'', JNum 3), (''outputTokens'', JNum 2)])]))"
    by code_simp
  show ?thesis
    using waiter_settlement_idempotent [OF refl, of happy_path "JStr ''t1''" 5000
        "[Notification (completed_msg ''failed''), Deadline, Notification (error_msg ''boom'' False)]"] s p
    by blast
qed

text \<open>
  C5, as amended. When a turn settles successfully, the resolved text is the latest
  complete agent message accepted for the turn if there is one and it is not the empty
  string, and the concatenation, in arrival order, of the accepted deltas otherwise (so
  also when the latest complete agent message is the empty string).
\<close>

theorem successful_turn_text:
  assumes "promise (waiter_run evs (createTurnWaiter thread limit)) = Some (Inr res)"
  shows "get_prop res ''text'' =
           JStr (resolved_text (accepted_log evs (createTurnWaiter thread limit)))"
  using success_result [OF assms] by simp

text \<open>Witness for C5: on the happy path the complete message wins over the delta.\<close>

theorem successful_turn_text_witness:
  "promise (waiter_run happy_path (createTurnWaiter (JStr ''t1'') 5000))
     = Some (Inr (JObj [(''text'', JStr ''Hi there''),
          (''usage'', JObj [(''inputTokens'', JNum 3), (''outputTokens'', JNum 2)])])) \<and>
   resolved_text (accepted_log happy_path (createTurnWaiter (JStr ''t1'') 5000)) = ''Hi there''"
proof -
  have p: "promise (waiter_run happy_path (createTurnWaiter (JStr ''t1'') 5000))
     = Some (Inr (JObj [(''text'', JStr ''Hi there''),
          (''usage'', JObj [(''inputTokens'', JNum 3), (''outputTokens'', JNum 2)])]))"
    by code_simp
  show ?thesis using successful_turn_text [OF p] p by simp
qed

text \<open>
  Counterexample to C5 as stated: a delta \<open>Hi\<close>, then a complete agent message with the
  empty text, then \<^verbatim>\<open>turn/completed\<close>. A complete agent message has arrived, its text
  is empty, and the turn resolves with \<open>Hi\<close>
  (\<^verbatim>\<open>latestAgentMessage || aggregatedAgentDeltas\<close>).
\<close>

theorem successful_turn_text_counterexample:
  "promise (waiter_run [Notification (delta_msg ''Hi''), Notification (agent_message_msg []),
                        Notification (completed_msg ''completed'')]
             (createTurnWaiter (JStr ''t1'') 5000))
     = Some (Inr (JObj [(''text'', JStr ''Hi''), (''usage'', JNull)])) \<and>
   agent_messages (accepted_log [Notification (delta_msg ''Hi''), Notification (agent_message_msg []),
                        Notification (completed_msg ''completed'')]
             (createTurnWaiter (JStr ''t1'') 5000)) = [[]] \<and>
   claimed_text (accepted_log [Notification (delta_msg ''Hi''), Notification (agent_message_msg []),
                        Notification (completed_msg ''completed'')]
             (createTurnWaiter (JStr ''t1'') 5000)) = [] \<and>
   get_prop (JObj [(''text'', JStr ''Hi''), (''usage'', JNull)]) ''text''
     \<noteq> JStr (claimed_text (accepted_log [Notification (delta_msg ''Hi''), Notification (agent_message_msg []),
                        Notification (completed_msg ''completed'')]
             (createTurnWaiter (JStr ''t1'') 5000)))"
  by code_simp

text \<open>
  C6, as amended. A successfully resolved turn returns \<^verbatim>\<open>{text, usage}\<close> with a string
  \<open>text\<close>. \<open>usage\<close> is null when no token usage update was accepted for the turn;
  otherwise it is \<^verbatim>\<open>{inputTokens, outputTokens}\<close> of the last accepted update (not a
  sum), each field taken from \<^verbatim>\<open>tokenUsage.last\<close> with 0 in place of a missing or null
  field. The result has the shape of the specification when there was an update and
  the fields of the last one are numbers or missing.
\<close>

theorem successful_turn_usage:
  assumes "promise (waiter_run evs (createTurnWaiter thread limit)) = Some (Inr res)"
    and "ms = accepted_log evs (createTurnWaiter thread limit)"
  shows "(\<exists>t. res = JObj [(''text'', JStr t), (''usage'', resolved_usage ms)]) \<and>
         (usage_updates ms = [] \<longrightarrow> get_prop res ''usage'' = JNull) \<and>
         (usage_updates ms \<noteq> [] \<and>
          number_or_missing (opt_member (last_snapshot (last (usage_updates ms))) ''inputTokens'') \<and>
          number_or_missing (opt_member (last_snapshot (last (usage_updates ms))) ''outputTokens'')
          \<longrightarrow> claimed_result_shape res)"
proof -
  have r: "res = JObj [(''text'', JStr (resolved_text ms)), (''usage'', resolved_usage ms)]"
    unfolding assms(2) using assms(1) by (rule success_result)
  have n: "\<And>v k. number_or_missing (opt_member v k) \<Longrightarrow> is_number (field_or_zero v k)"
    by (auto simp: number_or_missing_def field_or_zero_def)
  show ?thesis unfolding r
    by (simp add: resolved_usage_def claimed_result_shape_def n)
qed

text \<open>Witness for C6: of two usage updates the later one is returned.\<close>

theorem successful_turn_usage_witness:
  "promise (waiter_run (Notification (usage_msg 10 20) # happy_path) (createTurnWaiter (JStr ''t1'') 5000))
     = Some (Inr (JObj [(''text'', JStr ''Hi there''),
          (''usage'', JObj [(''inputTokens'', JNum 3), (''outputTokens'', JNum 2)])])) \<and>
   resolved_usage (accepted_log (Notification (usage_msg 10 20) # happy_path) (createTurnWaiter (JStr ''t1'') 5000))
     = JObj [(''inputTokens'', JNum 3), (''outputTokens'', JNum 2)]"
proof -
  have p: "promise (waiter_run (Notification (usage_msg 10 20) # happy_path) (createTurnWaiter (JStr ''t1'') 5000))
     = Some (Inr (JObj [(''text'', JStr ''Hi there''),
          (''usage'', JObj [(''inputTokens'', JNum 3), (''outputTokens'', JNum 2)])]))"
    by code_simp
  show ?thesis using successful_turn_usage [OF p refl] p by simp
qed

text \<open>
  Counterexample to C6 as stated: a turn that completes with no token usage update
  resolves with \<^verbatim>\<open>usage: null\<close>, which has no \<open>inputTokens\<close>.
\<close>

theorem successful_turn_usage_counterexample:
  "promise (waiter_run [Notification (delta_msg ''Hi''), Notification (completed_msg ''completed'')]
             (createTurnWaiter (JStr ''t1'') 5000))
     = Some (Inr (JObj [(''text'', JStr ''Hi''), (''usage'', JNull)])) \<and>
   \<not> claimed_result_shape (JObj [(''text'', JStr ''Hi''), (''usage'', JNull)])"
  by code_simp

text \<open>
  C9. Let \<open>w\<close> be a waiter that is not settled and whose turn id is bound, and \<open>m\<close> an
  \<^verbatim>\<open>error\<close> notification with the waiter's thread id and turn id. If \<open>willRetry\<close> is not
  set, the notification settles the waiter at once, rejecting with the message the
  error carries (\<open>Turn failed.\<close> when it carries none). If \<open>willRetry\<close> is set, the
  waiter is left exactly as it was.
\<close>

theorem error_notification_settles:
  assumes "w = waiter_run evs (createTurnWaiter thread limit)"
    and "\<not> settled w"
    and "has_method ''error'' m"
    and "same_thread (params_of m) w"
    and "truthy (turnId w)"
    and "strict_eq (get_prop (params_of m) ''turnId'') (turnId w)"
    and "w' = waiter_step (Notification m) w"
  shows "(\<not> truthy (get_prop (params_of m) ''willRetry'') \<longrightarrow>
            settled w' \<and>
            promise w' = Some (Inl (Error (js_to_string
               (nullish_coalesce (opt_member (opt_member (params_of m) ''error'') ''message'')
                                 (JStr ''Turn failed.'')))))) \<and>
         (\<not> truthy (get_prop (params_of m) ''willRetry'') \<and>
          opt_member (opt_member (params_of m) ''error'') ''message'' = JStr text
            \<longrightarrow> promise w' = Some (Inl (Error text))) \<and>
         (truthy (get_prop (params_of m) ''willRetry'') \<longrightarrow> w' = w)"
proof -
  have ok: "waiter_ok w" unfolding assms(1) using waiter_ok_create by (rule waiter_ok_run)
  then have live: "subscribed w \<and> promise w = None" using assms(2) by (simp add: waiter_ok_def)
  have h: "notificationHandler m w = on_error (params_of m) w"
    using assms(3,4) by (simp add: notificationHandler_def has_method_def strict_eq_JStr Let_def)
  have l: "learn_turn_id (get_prop (params_of m) ''turnId'') w = w"
    using assms(5) by (simp add: learn_turn_id_def)
  have e: "w' = (if \<not> truthy (get_prop (params_of m) ''willRetry'')
                 then finish (Inl (error_failure (params_of m))) w else w)"
    unfolding assms(7) using live h l assms(5,6)
    by (simp add: deliver_def on_error_def turn_matches_def Let_def)
  show ?thesis unfolding e using live assms(2)
    by (simp add: finish_def error_failure_def nullish_coalesce_def)
qed

text \<open>Witness for C9: an error without and an error with the retry flag, after one delta.\<close>

theorem error_notification_settles_witness:
  "\<not> settled (waiter_run [Notification (delta_msg ''Hi'')] (createTurnWaiter (JStr ''t1'') 5000)) \<and>
   truthy (turnId (waiter_run [Notification (delta_msg ''Hi'')] (createTurnWaiter (JStr ''t1'') 5000))) \<and>
   promise (waiter_step (Notification (error_msg ''boom'' False))
       (waiter_run [Notification (delta_msg ''Hi'')] (createTurnWaiter (JStr ''t1'') 5000)))
     = Some (Inl (Error ''boom'')) \<and>
   waiter_step (Notification (error_msg ''again'' True))
       (waiter_run [Notification (delta_msg ''Hi'')] (createTurnWaiter (JStr ''t1'') 5000))
     = waiter_run [Notification (delta_msg ''Hi'')] (createTurnWaiter (JStr ''t1'') 5000)"
proof -
  define w where "w = waiter_run [Notification (delta_msg ''Hi'')] (createTurnWaiter (JStr ''t1'') 5000)"
  have 1: "\<not> settled w" unfolding w_def by code_simp
  have 2: "truthy (turnId w)" unfolding w_def by code_simp
  have 3: "same_thread (params_of (error_msg ''boom'' False)) w"
          "same_thread (params_of (error_msg ''again'' True)) w" unfolding w_def by code_simp+
  have 4: "strict_eq (get_prop (params_of (error_msg ''boom'' False)) ''turnId'') (turnId w)"
          "strict_eq (get_prop (params_of (error_msg ''again'' True)) ''turnId'') (turnId w)"
    unfolding w_def by code_simp+
  have 5: "has_method ''error'' (error_msg ''boom'' False)" "has_method ''error'' (error_msg ''again'' True)"
    by code_simp+
  have 6: "\<not> truthy (get_prop (params_of (error_msg ''boom'' False)) ''willRetry'')"
          "opt_member (opt_member (params_of (error_msg ''boom'' False)) ''error'') ''message'' = JStr ''boom''"
          "truthy (get_prop (params_of (error_msg ''again'' True)) ''willRetry'')"
    by code_simp+
  have a: "promise (waiter_step (Notification (error_msg ''boom'' False)) w) = Some (Inl (Error ''boom''))"
    using error_notification_settles [OF w_def 1 5(1) 3(1) 2 4(1) refl, of "''boom''"] 6 by blast
  have b: "waiter_step (Notification (error_msg ''again'' True)) w = w"
    using error_notification_settles [OF w_def 1 5(2) 3(2) 2 4(2) refl] 6 by blast
  show ?thesis using 1 2 a b unfolding w_def by blast
qed

section \<open>Claims about the answers to the requests of the server\<close>

text \<open>
  A question is answered without an exception when it is not null and, if it offers
  options, the first option is not null. \<open>expected_answer\<close> is the answer the
  specification gives: the label of the first option when options are offered, and
  otherwise \<open>yes\<close>, or \<open>other\<close> for a question marked \<open>isOther\<close>. The answers are
  stored under the id of the question, as a property key.
\<close>

definition question_ok :: "js \<Rightarrow> bool" where
  "question_ok q =
     (\<not> nullish q \<and> (case get_prop q ''options'' of JArr (first # others) \<Rightarrow> \<not> nullish first | _ \<Rightarrow> True))"

definition expected_answer :: "js \<Rightarrow> js" where
  "expected_answer q =
     JObj [(''answers'',
        JArr [case get_prop q ''options'' of
                JArr (first # others) \<Rightarrow> get_prop first ''label''
              | _ \<Rightarrow> if truthy (get_prop q ''isOther'') then JStr ''other'' else JStr ''yes''])]"

definition question_key :: "js \<Rightarrow> string" where
  "question_key q = js_to_string (get_prop q ''id'')"

definition reply :: "js \<Rightarrow> js \<Rightarrow> js" where
  "reply rid r = JObj [(''jsonrpc'', JStr ''2.0''), (''id'', rid), (''result'', r)]"

definition error_reply :: "js \<Rightarrow> string \<Rightarrow> js" where
  "error_reply rid method =
     JObj [(''jsonrpc'', JStr ''2.0''), (''id'', rid),
           (''error'', JObj [(''code'', JNum (- 32000)),
                             (''message'', JStr (''Unsupported server request method: '' @ method))])]"

definition known_methods :: "string list" where
  "known_methods =
     [''item/commandExecution/requestApproval'', ''item/fileChange/requestApproval'',
      ''execCommandApproval'', ''applyPatchApproval'', ''item/tool/requestUserInput'',
      ''item/tool/call'']"

definition questions_of :: "js \<Rightarrow> js" where
  "questions_of params = nullish_coalesce (opt_member params ''questions'') (JArr [])"

definition sample_config :: config where
  "sample_config = \<lparr> workdir = ''/work'', autoApprove = True, sandboxMode = ''workspace-write'',
                      autoRestart = True \<rparr>"

definition running_client :: client where
  "running_client = (new_client sample_config) \<lparr> child := Some \<lparr> killed = False, stdin_writable = True \<rparr> \<rparr>"

definition sample_questions :: "js list" where
  "sample_questions =
     [JObj [(''id'', JStr ''q1''), (''options'', JArr [JObj [(''label'', JStr ''A'')], JObj [(''label'', JStr ''B'')]])],
      JObj [(''id'', JStr ''q2''), (''isOther'', JBool True)],
      JObj [(''id'', JStr ''q3'')]]"

definition server_request :: "int \<Rightarrow> string \<Rightarrow> js \<Rightarrow> js" where
  "server_request n method params =
     JObj [(''jsonrpc'', JStr ''2.0''), (''id'', JNum n), (''method'', JStr method), (''params'', params)]"

lemma defaultToolAnswer_ok: "question_ok q \<Longrightarrow> defaultToolAnswer q = Inr (expected_answer q)"
  by (auto simp: question_ok_def defaultToolAnswer_def expected_answer_def member_def
      split: js.splits list.splits)

lemma update_fresh: "k \<notin> fst ` set al \<Longrightarrow> AList.update k v al = al @ [(k, v)]"
  by (induction al) auto

lemma answer_questions_ok:
  assumes "\<forall>q \<in> set qs. question_ok q"
    and "distinct (map question_key qs)"
    and "''__proto__'' \<notin> set (map question_key qs)"
    and "set (map question_key qs) \<inter> fst ` set acc = {}"
  shows "answer_questions acc qs = Inr (acc @ map (\<lambda>q. (question_key q, expected_answer q)) qs)"
  using assms
proof (induction qs arbitrary: acc)
  case Nil
  then show ?case by simp
next
  case (Cons q qs)
  have ok: "question_ok q" using Cons.prems(1) by simp
  then have m: "member q ''id'' = Inr (get_prop q ''id'')" by (simp add: question_ok_def member_def)
  have k: "question_key q \<noteq> ''__proto__''" "question_key q \<notin> fst ` set acc"
    using Cons.prems(3,4) by auto
  have a: "assign acc (question_key q) (expected_answer q) = acc @ [(question_key q, expected_answer q)]"
    using k by (simp add: assign_def update_fresh)
  have "answer_questions (acc @ [(question_key q, expected_answer q)]) qs
          = Inr ((acc @ [(question_key q, expected_answer q)]) @ map (\<lambda>q. (question_key q, expected_answer q)) qs)"
    using Cons.prems by (intro Cons.IH) auto
  then show ?case using m a defaultToolAnswer_ok [OF ok] by (simp add: question_key_def)
qed

lemma handle_result:
  assumes "child_writable s" and "get_prop message ''method'' = JStr method"
    and "buildServerRequestResult method (get_prop message ''params'') = Inr r"
  shows "handleServerRequest message s = Inr (s \<lparr> written := written s @ [reply (get_prop message ''id'') r] \<rparr>)"
  using assms by (simp add: handleServerRequest_def writeMessage_def reply_def Let_def)

lemma handle_failure:
  assumes "child_writable s" and "get_prop message ''method'' = JStr method"
    and "buildServerRequestResult method (get_prop message ''params'') = Inl e"
  shows "handleServerRequest message s
           = Inr (s \<lparr> written := written s @ [error_reply (get_prop message ''id'') method] \<rparr>)"
  using assms
  by (simp add: handleServerRequest_def writeMessage_def error_reply_def
      makeServerRequestUnsupportedError_def Let_def)

lemma build_unknown:
  "method \<notin> set known_methods \<Longrightarrow>
     buildServerRequestResult method params = Inl (Error (''Unsupported server request: '' @ method))"
  unfolding known_methods_def buildServerRequestResult_def
  by (simp del: One_nat_def)

text \<open>
  C10. While the standard input of the child is writable, the client answers a server
  request \<open>message\<close> by writing exactly one message and changes nothing else of its state:
  \<^item> the approval requests for a command execution and for a file change with
    \<open>accept\<close>, their legacy forms with \<open>approved\<close>;
  \<^item> \<^verbatim>\<open>item/tool/requestUserInput\<close>, for questions that are answerable and have
    distinct ids (none of them \<^verbatim>\<open>__proto__\<close>), with one answer per question in
    order: the label of the first option when options are offered, otherwise \<open>yes\<close>,
    or \<open>other\<close> when the question is marked \<open>isOther\<close>;
  \<^item> \<^verbatim>\<open>item/tool/call\<close> with \<open>success: false\<close> and a content item saying that
    dynamic tool calls are not supported;
  \<^item> every other method with a JSON-RPC error of code -32000 whose message names the
    method.
\<close>

theorem server_request_answers:
  assumes "child_writable s"
    and "get_prop message ''method'' = JStr method"
    and "rid = get_prop message ''id''"
    and "params = get_prop message ''params''"
    and "answered = (\<lambda>r. handleServerRequest message s = Inr (s \<lparr> written := written s @ [r] \<rparr>))"
  shows "(method = ''item/commandExecution/requestApproval'' \<or> method = ''item/fileChange/requestApproval''
            \<longrightarrow> answered (reply rid (JObj [(''decision'', JStr ''accept'')]))) \<and>
         (method = ''execCommandApproval'' \<or> method = ''applyPatchApproval''
            \<longrightarrow> answered (reply rid (JObj [(''decision'', JStr ''approved'')]))) \<and>
         (method = ''item/tool/requestUserInput'' \<and> questions_of params = JArr qs \<and>
          (\<forall>q \<in> set qs. question_ok q) \<and> distinct (map question_key qs) \<and>
          ''__proto__'' \<notin> set (map question_key qs)
            \<longrightarrow> answered (reply rid (JObj [(''answers'',
                    JObj (map (\<lambda>q. (question_key q, expected_answer q)) qs))]))) \<and>
         (method = ''item/tool/call''
            \<longrightarrow> answered (reply rid (JObj [(''success'', JBool False),
                   (''contentItems'',
                    JArr [JObj [(''type'', JStr ''inputText''),
                                (''text'', JStr ''Dynamic tool calls are not supported by this gateway.'')]])]))) \<and>
         (method \<notin> set known_methods \<longrightarrow> answered (error_reply rid method))"
proof -
  note h = handle_result [OF assms(1,2), folded assms(3,4)]
  have 1: "method = ''item/commandExecution/requestApproval'' \<or> method = ''item/fileChange/requestApproval''
            \<longrightarrow> answered (reply rid (JObj [(''decision'', JStr ''accept'')]))"
    unfolding assms(5) by (auto intro!: h simp: buildServerRequestResult_def)
  have 2: "method = ''execCommandApproval'' \<or> method = ''applyPatchApproval''
            \<longrightarrow> answered (reply rid (JObj [(''decision'', JStr ''approved'')]))"
    unfolding assms(5) by (auto intro!: h simp: buildServerRequestResult_def)
  have 3: "method = ''item/tool/requestUserInput'' \<and> questions_of params = JArr qs \<and>
          (\<forall>q \<in> set qs. question_ok q) \<and> distinct (map question_key qs) \<and>
          ''__proto__'' \<notin> set (map question_key qs)
            \<longrightarrow> answered (reply rid (JObj [(''answers'',
                    JObj (map (\<lambda>q. (question_key q, expected_answer q)) qs))]))"
  proof (intro impI, elim conjE)
    assume m: "method = ''item/tool/requestUserInput''" and q: "questions_of params = JArr qs"
      and ok: "\<forall>q \<in> set qs. question_ok q" and d: "distinct (map question_key qs)"
      and p: "''__proto__'' \<notin> set (map question_key qs)"
    have "answer_questions [] qs = Inr ([] @ map (\<lambda>q. (question_key q, expected_answer q)) qs)"
      using ok d p by (rule answer_questions_ok) simp
    then have "buildServerRequestResult method params
                 = Inr (JObj [(''answers'', JObj (map (\<lambda>q. (question_key q, expected_answer q)) qs))])"
      using q unfolding m by (simp add: buildServerRequestResult_def questions_of_def)
    then show "answered (reply rid (JObj [(''answers'',
                    JObj (map (\<lambda>q. (question_key q, expected_answer q)) qs))]))"
      unfolding assms(5) by (rule h)
  qed
  have 4: "method = ''item/tool/call''
            \<longrightarrow> answered (reply rid (JObj [(''success'', JBool False),
                   (''contentItems'',
                    JArr [JObj [(''type'', JStr ''inputText''),
                                (''text'', JStr ''Dynamic tool calls are not supported by this gateway.'')]])]))"
    unfolding assms(5) by (auto intro!: h simp: buildServerRequestResult_def)
  have 5: "method \<notin> set known_methods \<longrightarrow> answered (error_reply rid method)"
    unfolding assms(5,3)
    using handle_failure [OF assms(1,2), folded assms(4)] build_unknown by blast
  show ?thesis using 1 2 3 4 5 by blast
qed

text \<open>
  Witness for C10: a request for user input with three questions (options, open-ended,
  plain), and a request with an unknown method.
\<close>

theorem server_request_answers_witness:
  "child_writable running_client \<and>
   handleServerRequest
       (server_request 7 ''item/tool/requestUserInput'' (JObj [(''questions'', JArr sample_questions)]))
       running_client
     = Inr (running_client \<lparr> written := written running_client @
         [reply (JNum 7) (JObj [(''answers'', JObj
            [(''q1'', JObj [(''answers'', JArr [JStr ''A''])]),
             (''q2'', JObj [(''answers'', JArr [JStr ''other''])]),
             (''q3'', JObj [(''answers'', JArr [JStr ''yes''])])])])] \<rparr>) \<and>
   handleServerRequest (server_request 8 ''account/login'' JNull) running_client
     = Inr (running_client \<lparr> written := written running_client @
         [error_reply (JNum 8) ''account/login''] \<rparr>)"
proof -
  define m1 where "m1 = server_request 7 ''item/tool/requestUserInput'' (JObj [(''questions'', JArr sample_questions)])"
  define m2 where "m2 = server_request 8 ''account/login'' JNull"
  have w: "child_writable running_client" by code_simp
  have a: "get_prop m1 ''method'' = JStr ''item/tool/requestUserInput''"
          "get_prop m1 ''id'' = JNum 7"
          "questions_of (get_prop m1 ''params'') = JArr sample_questions"
    unfolding m1_def by code_simp+
  have b: "get_prop m2 ''method'' = JStr ''account/login''" "get_prop m2 ''id'' = JNum 8"
          "''account/login'' \<notin> set known_methods"
    unfolding m2_def by code_simp+
  have q: "\<forall>q \<in> set sample_questions. question_ok q" "distinct (map question_key sample_questions)"
          "''__proto__'' \<notin> set (map question_key sample_questions)"
    by code_simp+
  have e: "map (\<lambda>q. (question_key q, expected_answer q)) sample_questions =
            [(''q1'', JObj [(''answers'', JArr [JStr ''A''])]),
             (''q2'', JObj [(''answers'', JArr [JStr ''other''])]),
             (''q3'', JObj [(''answers'', JArr [JStr ''yes''])])]"
    by code_simp
  have 1: "handleServerRequest m1 running_client
     = Inr (running_client \<lparr> written := written running_client @
         [reply (JNum 7) (JObj [(''answers'', JObj (map (\<lambda>q. (question_key q, expected_answer q)) sample_questions))])] \<rparr>)"
    using server_request_answers [OF w a(1) refl refl refl, of sample_questions] a(2,3) q by simp
  have 2: "handleServerRequest m2 running_client
     = Inr (running_client \<lparr> written := written running_client @ [error_reply (JNum 8) ''account/login''] \<rparr>)"
    using server_request_answers [OF w b(1) refl refl refl, of "[]"] b(2,3) by simp
  show ?thesis using w 1 2 unfolding e m1_def m2_def by simp
qed

section \<open>The correlation table\<close>

text \<open>
  The ids \<open>1, \<dots>, requestCounter - 1\<close> are the ids \<^verbatim>\<open>#sendRequest\<close> has registered.
  \<open>id_ok\<close> says where one id stands: either it is in the table, its timer is set, it has
  never been removed and its promise has never been settled; or it is a registered id
  that is out of the table, with no timer, removed exactly once and settled exactly
  once; or it is not a registered id and occurs nowhere.
\<close>

type_synonym table = "(int \<times> string) list \<times> int \<times> (int \<times> string) list \<times> int list \<times> (int \<times> (exn + js)) list"

definition table :: "client \<Rightarrow> table" where
  "table s = (pendingRequests s, requestCounter s, request_timers s, removed s, settle_log s)"

definition id_ok :: "table \<Rightarrow> int \<Rightarrow> bool" where
  "id_ok tb rid =
     (case tb of (pending, counter, timers, gone, slog) \<Rightarrow>
           if rid \<in> fst ` set pending then
             1 \<le> rid \<and> rid < counter \<and> rid \<in> fst ` set timers \<and> rid \<notin> set gone \<and>
             rid \<notin> fst ` set slog
           else if 1 \<le> rid \<and> rid < counter then
             rid \<notin> fst ` set timers \<and> count_list gone rid = 1 \<and>
             count_list (map fst slog) rid = 1
           else rid \<notin> fst ` set timers \<and> rid \<notin> set gone \<and> rid \<notin> fst ` set slog)"

definition table_ok :: "client \<Rightarrow> bool" where
  "table_ok s = (distinct (map fst (pendingRequests s)) \<and> 1 \<le> requestCounter s \<and>
                 (\<forall>rid. id_ok (table s) rid))"

definition registered :: "string \<Rightarrow> client \<Rightarrow> client" where
  "registered method s =
     s \<lparr> requestCounter := requestCounter s + 1,
         request_timers := request_timers s @ [(requestCounter s, method)],
         pendingRequests := AList.update (requestCounter s) method (pendingRequests s) \<rparr>"

definition response :: "int \<Rightarrow> js \<Rightarrow> js" where
  "response rid r = JObj [(''jsonrpc'', JStr ''2.0''), (''id'', JNum rid), (''result'', r)]"

definition handshake :: "event list" where
  "handshake =
     [EnsureReady, Line (Some (response 1 (JObj []))), ResumeStart 0,
      Line (Some (response 2 (JObj [(''thread'', JObj [(''id'', JStr ''t1'')])]))), ResumeStart 0,
      SettleStart 0, ResumeCall 0]"

lemma count_list_0: "x \<notin> set xs \<Longrightarrow> count_list xs x = 0"
  by (induction xs) auto

lemma fst_set_delete: "fst ` set (AList.delete k al) = fst ` set al - {k}"
  by (induction al) auto

lemma fst_set_update: "fst ` set (AList.update k v al) = insert k (fst ` set al)"
  by (simp add: AList.dom_update)

lemma table_ok_new: "table_ok (new_client cfg)"
  by (simp add: table_ok_def id_ok_def table_def new_client_def)

lemma table_ok_cong:
  "table s' = table s \<Longrightarrow> table_ok s' = table_ok s"
  by (simp add: table_ok_def table_def)

lemma table_writeMessage: "writeMessage m s = Inr s' \<Longrightarrow> table s' = table s"
  by (auto simp: writeMessage_def table_def split: if_splits)

lemma map_of_keys: "map_of al k = Some v \<Longrightarrow> k \<in> fst ` set al"
  by (metis fst_conv image_eqI map_of_SomeD)

lemma id_ok_register:
  assumes "id_ok (table s) (requestCounter s)" and "1 \<le> requestCounter s" and "id_ok (table s) x"
  shows "id_ok (table (s \<lparr> requestCounter := requestCounter s + 1,
                     request_timers := request_timers s @ [(requestCounter s, method)],
                     pendingRequests := AList.update (requestCounter s) method (pendingRequests s) \<rparr>)) x"
proof (cases "x = requestCounter s")
  case True
  then show ?thesis using assms(1,2)
    by (simp add: id_ok_def table_def fst_set_update split: if_splits)
next
  case False
  then show ?thesis using assms(3)
    by (simp add: id_ok_def table_def fst_set_update split: if_splits)
qed

lemma table_ok_register:
  assumes "table_ok s"
  shows "table_ok (s \<lparr> requestCounter := requestCounter s + 1,
                     request_timers := request_timers s @ [(requestCounter s, method)],
                     pendingRequests := AList.update (requestCounter s) method (pendingRequests s) \<rparr>)"
proof -
  have a: "\<And>x. id_ok (table s) x" "1 \<le> requestCounter s" "distinct (map fst (pendingRequests s))"
    using assms by (simp_all add: table_ok_def)
  show ?thesis
    unfolding table_ok_def
    using id_ok_register [OF a(1) a(2) a(1)] a(2,3)
    by (auto simp: AList.distinct_update)
qed

lemma id_ok_unregister:
  assumes "rid \<in> fst ` set (pendingRequests s)" and "id_ok (table s) rid" and "id_ok (table s) x"
  shows "id_ok (table (settle rid r (delete_pending rid (clearTimeout rid s)))) x"
proof (cases "x = rid")
  case True
  then show ?thesis using assms(1,2)
    by (simp add: id_ok_def table_def settle_def delete_pending_def clearTimeout_def
        fst_set_delete count_list_0 split: if_splits)
next
  case False
  then show ?thesis using assms(1,3)
    by (simp add: id_ok_def table_def settle_def delete_pending_def clearTimeout_def
        fst_set_delete split: if_splits)
qed

lemma table_ok_unregister:
  assumes "table_ok s" and "rid \<in> fst ` set (pendingRequests s)"
  shows "table_ok (settle rid r (delete_pending rid (clearTimeout rid s)))"
proof -
  have a: "\<And>x. id_ok (table s) x" "1 \<le> requestCounter s" "distinct (map fst (pendingRequests s))"
    using assms by (simp_all add: table_ok_def)
  have "distinct (map fst (pendingRequests (settle rid r (delete_pending rid (clearTimeout rid s)))))"
       "1 \<le> requestCounter (settle rid r (delete_pending rid (clearTimeout rid s)))"
    using a(2,3) assms(2)
    by (simp_all add: settle_def delete_pending_def clearTimeout_def AList.distinct_delete)
  then show ?thesis
    unfolding table_ok_def using id_ok_unregister [OF assms(2) a(1) a(1)] by blast
qed

lemma sendRequest_stopped:
  "\<not> child_running s \<Longrightarrow> sendRequest method params s = Inl (Error ''Codex process is not running.'')"
  by (simp add: sendRequest_def)

lemma sendRequest_running:
  "child_running s \<Longrightarrow>
   sendRequest method params s =
     Inr (requestCounter s,
          case writeMessage (request_payload (requestCounter s) method params) (registered method s) of
            Inr s2 \<Rightarrow> s2
          | Inl e \<Rightarrow> settle (requestCounter s) (Inl e)
                      (delete_pending (requestCounter s) (clearTimeout (requestCounter s) (registered method s))))"
  unfolding sendRequest_def registered_def Let_def
  by (cases "writeMessage (request_payload (requestCounter s) method params)
       (s\<lparr>requestCounter := requestCounter s + 1,
            request_timers := request_timers s @ [(requestCounter s, method)],
            pendingRequests := AList.update (requestCounter s) method (pendingRequests s)\<rparr>)") simp_all

lemma sendRequest_Inr:
  assumes "sendRequest method params s = Inr (rid, s')"
  shows "child_running s \<and> rid = requestCounter s \<and>
         s' = (case writeMessage (request_payload (requestCounter s) method params) (registered method s) of
            Inr s2 \<Rightarrow> s2
          | Inl e \<Rightarrow> settle (requestCounter s) (Inl e)
                      (delete_pending (requestCounter s) (clearTimeout (requestCounter s) (registered method s))))"
proof (cases "child_running s")
  case True
  have "Inr (rid, s') = sendRequest method params s" using assms by simp
  then show ?thesis unfolding sendRequest_running [OF True, of "method" "params"] using True by blast
next
  case False
  then show ?thesis using assms sendRequest_stopped [OF False, of "method" "params"] by simp
qed

lemma table_ok_sendRequest:
  assumes "table_ok s" and "sendRequest method params s = Inr (rid, s')"
  shows "table_ok s'"
proof -
  have r: "s' = (case writeMessage (request_payload (requestCounter s) method params) (registered method s) of
            Inr s2 \<Rightarrow> s2
          | Inl e \<Rightarrow> settle (requestCounter s) (Inl e)
                      (delete_pending (requestCounter s) (clearTimeout (requestCounter s) (registered method s))))"
    using sendRequest_Inr [OF assms(2)] by blast
  have ok1: "table_ok (registered method s)"
    unfolding registered_def using assms(1) by (rule table_ok_register)
  show ?thesis
  proof (cases "writeMessage (request_payload (requestCounter s) method params) (registered method s)")
    case (Inr s2)
    have "s' = s2" unfolding r Inr by simp
    moreover have "table_ok s2" using ok1 table_writeMessage [OF Inr] table_ok_cong by blast
    ultimately show ?thesis by simp
  next
    case (Inl e)
    have s': "s' = settle (requestCounter s) (Inl e)
                      (delete_pending (requestCounter s) (clearTimeout (requestCounter s) (registered method s)))"
      unfolding r Inl by simp
    have in1: "requestCounter s \<in> fst ` set (pendingRequests (registered method s))"
      by (simp add: registered_def fst_set_update)
    show ?thesis unfolding s' using ok1 in1 by (rule table_ok_unregister)
  qed
qed

lemma table_ok_handleResponse:
  assumes "table_ok s"
  shows "table_ok (handleResponse m s)"
proof (cases "get_prop m ''id''")
  case (JNum rid)
  show ?thesis
  proof (cases "map_of (pendingRequests s) rid")
    case None
    then show ?thesis using JNum assms by (simp add: handleResponse_def)
  next
    case (Some p)
    then have "rid \<in> fst ` set (pendingRequests s)" by (rule map_of_keys)
    then have "\<And>r. table_ok (settle rid r (delete_pending rid (clearTimeout rid s)))"
      using assms by (intro table_ok_unregister)
    then show ?thesis using JNum Some by (simp add: handleResponse_def Let_def)
  qed
qed (simp_all add: handleResponse_def assms)

lemma table_ok_request_timeout:
  assumes "table_ok s"
  shows "table_ok (request_timeout rid s)"
proof (cases "map_of (request_timers s) rid")
  case None
  then show ?thesis using assms by (simp add: request_timeout_def)
next
  case (Some m)
  have t: "rid \<in> fst ` set (request_timers s)" using Some by (rule map_of_keys)
  have "id_ok (table s) rid" using assms by (simp add: table_ok_def)
  then have "rid \<in> fst ` set (pendingRequests s)"
    using t by (simp add: id_ok_def table_def split: if_splits)
  then have "table_ok (settle rid (Inl (Error (''Codex request timed out for method '' @ m @ ''.'')))
                (delete_pending rid (clearTimeout rid s)))"
    using assms by (intro table_ok_unregister)
  then show ?thesis using Some by (simp add: request_timeout_def clearTimeout_def)
qed

lemma filter_delete:
  "filter (\<lambda>t. fst t \<notin> A) (AList.delete k ts) = filter (\<lambda>t. fst t \<notin> insert k A) ts"
  by (induction ts) auto

lemma fold_reject:
  "fold (\<lambda>entry s'. settle (fst entry) (Inl e) (clearTimeout (fst entry) s')) xs s =
     s \<lparr> request_timers := filter (\<lambda>t. fst t \<notin> fst ` set xs) (request_timers s),
         settle_log := settle_log s @ map (\<lambda>entry. (fst entry, Inl e)) xs \<rparr>"
proof (induction xs arbitrary: s)
  case Nil
  then show ?case by simp
next
  case (Cons x xs)
  define s1 where "s1 = settle (fst x) (Inl e) (clearTimeout (fst x) s)"
  have "fold (\<lambda>entry s'. settle (fst entry) (Inl e) (clearTimeout (fst entry) s')) (x # xs) s
          = s1 \<lparr> request_timers := filter (\<lambda>t. fst t \<notin> fst ` set xs) (request_timers s1),
                 settle_log := settle_log s1 @ map (\<lambda>entry. (fst entry, Inl e)) xs \<rparr>"
    unfolding s1_def by (simp add: Cons.IH)
  also have "\<dots> = s \<lparr> request_timers := filter (\<lambda>t. fst t \<notin> fst ` set (x # xs)) (request_timers s),
         settle_log := settle_log s @ map (\<lambda>entry. (fst entry, Inl e)) (x # xs) \<rparr>"
    unfolding s1_def by (simp add: settle_def clearTimeout_def filter_delete)
  finally show ?case .
qed

lemma reject_all_eq:
  "reject_all e s =
     s \<lparr> request_timers := filter (\<lambda>t. fst t \<notin> fst ` set (pendingRequests s)) (request_timers s),
         settle_log := settle_log s @ map (\<lambda>entry. (fst entry, Inl e)) (pendingRequests s),
         removed := removed s @ map fst (pendingRequests s),
         pendingRequests := [] \<rparr>"
  by (simp add: reject_all_def fold_reject Let_def)

lemma key_in_fst_set: "(k, v) \<in> set al \<Longrightarrow> k \<in> fst ` set al"
  by force

lemma count_list_distinct: "distinct xs \<Longrightarrow> count_list xs x = (if x \<in> set xs then 1 else 0)"
  by (induction xs) auto

lemma table_ok_reject_all:
  assumes "table_ok s"
  shows "table_ok (reject_all e s)"
proof -
  have a: "\<And>x. id_ok (table s) x" "1 \<le> requestCounter s" "distinct (map fst (pendingRequests s))"
    using assms by (simp_all add: table_ok_def)
  have m: "map fst (map (\<lambda>entry. (fst entry, Inl e :: exn + js)) (pendingRequests s)) = map fst (pendingRequests s)"
    by (simp add: comp_def)
  have "\<And>x. id_ok (table (reject_all e s)) x"
  proof -
    fix x
    show "id_ok (table (reject_all e s)) x"
      using a(1) [of x] count_list_distinct [OF a(3), of x]
      by (auto simp: reject_all_eq id_ok_def table_def image_image comp_def count_list_0
          dest: key_in_fst_set split: if_splits)
  qed
  then show ?thesis using a(2) by (simp add: table_ok_def reject_all_eq)
qed

lemma table_ok_same: "table s' = table s \<Longrightarrow> table_ok s \<Longrightarrow> table_ok s'"
  using table_ok_cong by blast

lemma table_kill_child: "table (kill_child s) = table s"
  by (cases "child s") (simp_all add: kill_child_def table_def)

lemma table_spawnProcess: "table (spawnProcess s) = table s"
  by (simp add: spawnProcess_def table_def)

lemma table_resetSession: "table (resetSession s) = table s"
  by (simp add: resetSession_def Let_def table_kill_child) (simp add: table_def)

lemma table_set_start_phase: "table (set_start_phase k ph s) = table s"
  by (simp add: set_start_phase_def table_def)

lemma table_settle_start_promise: "table (settle_start_promise k r s) = table s"
  by (simp add: settle_start_promise_def table_def)

lemma table_settle_start: "table (settle_start k s) = table s"
  by (cases "si_phase (attempts s ! k)") (simp_all add: settle_start_def table_settle_start_promise)

lemma table_on_child_error: "table (on_child_error text s) = table s"
  by (cases "startReject s") (simp_all add: on_child_error_def table_def settle_start_promise_def)

lemma table_release: "table (snd (release c s)) = table s"
  by (cases c; cases "start_promise_state s (case c of Initiator k \<Rightarrow> k | _ \<Rightarrow> 0)")
     (simp_all add: release_def table_def)

lemma table_queueTurn: "table (queueTurn a b c s) = table s"
  by (simp add: queueTurn_def table_def)

lemma table_set_turn: "table (set_turn i t s) = table s"
  by (simp add: set_turn_def table_def)

lemma table_adopt_result: "table (adopt_result i s) = table s"
  by (cases "phase (turns s ! i)") (simp_all add: adopt_result_def table_set_turn)

lemma table_chain_queue: "table (chain_queue i s) = table s"
  by (simp add: chain_queue_def table_set_turn)

lemma table_emitNotification: "table (emitNotification m s) = table s"
  by (simp add: emitNotification_def table_def)

lemma table_turn_timeout: "table (turn_timeout i s) = table s"
  by (simp add: turn_timeout_def table_set_turn)

lemma table_close_stdin: "table (close_stdin s) = table s"
  by (cases "child s") (simp_all add: close_stdin_def table_def)

lemma table_resume_call: "table (resume_call j s) = table s"
  using table_release [of "calls s ! j" s]
  by (simp add: resume_call_def case_prod_beta) (simp add: table_def)

lemma table_sendNotification: "sendNotification m p s = Inr s' \<Longrightarrow> table s' = table s"
  unfolding sendNotification_def by (rule table_writeMessage)

lemma handleServerRequest_writes:
  assumes "handleServerRequest m s = Inr s'"
  shows "\<exists>msg. writeMessage msg s = Inr s'"
proof (cases "buildServerRequestResult (string_or_empty (get_prop m ''method'')) (get_prop m ''params'')")
  case (Inl e)
  then show ?thesis using assms by (auto simp: handleServerRequest_def Let_def)
next
  case (Inr r)
  show ?thesis
  proof (cases "writeMessage (JObj [(''jsonrpc'', JStr ''2.0''), (''id'', get_prop m ''id''), (''result'', r)]) s")
    case (Inl e)
    then show ?thesis using assms Inr by (auto simp: handleServerRequest_def Let_def)
  next
    case Inr2: (Inr s2)
    then show ?thesis using assms Inr by (auto simp: handleServerRequest_def Let_def)
  qed
qed

lemma table_handleServerRequest: "handleServerRequest m s = Inr s' \<Longrightarrow> table s' = table s"
  using handleServerRequest_writes table_writeMessage by blast

lemma table_ok_stop: "table_ok s \<Longrightarrow> table_ok (stop s)"
proof -
  assume ok: "table_ok s"
  have "table (s \<lparr> isStopping := True \<rparr>) = table s" by (simp add: table_def)
  then have "table_ok (s \<lparr> isStopping := True \<rparr>)" using ok by (rule table_ok_same)
  then have 1: "table_ok (reject_all (Error ''Codex client is shutting down.'') (s \<lparr> isStopping := True \<rparr>))"
    by (rule table_ok_reject_all)
  have "table (stop s) = table (reject_all (Error ''Codex client is shutting down.'') (s \<lparr> isStopping := True \<rparr>))"
    using table_kill_child
    by (simp add: stop_def Let_def) (simp add: table_def)
  then show ?thesis using 1 by (rule table_ok_same)
qed

lemma table_ok_on_exit: "table_ok s \<Longrightarrow> table_ok (on_exit s)"
proof -
  assume ok: "table_ok s"
  have "table (s \<lparr> threadId := JNull \<rparr>) = table s" by (simp add: table_def)
  then have "table_ok (s \<lparr> threadId := JNull \<rparr>)" using ok by (rule table_ok_same)
  then have 1: "table_ok (reject_all (Error ''Codex app-server exited.'') (s \<lparr> threadId := JNull \<rparr>))"
    by (rule table_ok_reject_all)
  have "table (on_exit s) = table (reject_all (Error ''Codex app-server exited.'') (s \<lparr> threadId := JNull \<rparr>))"
    by (simp add: on_exit_def Let_def) (simp add: table_def)
  then show ?thesis using 1 by (rule table_ok_same)
qed

lemma table_ok_startInternal: "table_ok s \<Longrightarrow> table_ok (snd (startInternal s))"
proof -
  assume ok: "table_ok s"
  have 1: "table_ok (spawnProcess s)" using table_spawnProcess ok by (rule table_ok_same)
  show ?thesis
  proof (cases "isStopping s")
    case True
    then show ?thesis using ok by (simp add: startInternal_def)
  next
    case False
    show ?thesis
    proof (cases "sendRequest ''initialize'' initialize_params (spawnProcess s)")
      case (Inl e)
      then show ?thesis using False 1 by (simp add: startInternal_def Let_def)
    next
      case (Inr p)
      then have "sendRequest ''initialize'' initialize_params (spawnProcess s) = Inr (fst p, snd p)" by simp
      then have "table_ok (snd p)" using 1 table_ok_sendRequest by blast
      then show ?thesis using False Inr by (simp add: startInternal_def Let_def case_prod_beta)
    qed
  qed
qed

lemma table_ok_ensureReady: "table_ok s \<Longrightarrow> table_ok (snd (ensureReady s))"
proof -
  assume ok: "table_ok s"
  show ?thesis
  proof (cases "client_ready s")
    case True
    then show ?thesis using ok by (simp add: ensureReady_def)
  next
    case False
    show ?thesis
    proof (cases "startPromise s")
      case (Some k)
      then show ?thesis using ok False by (simp add: ensureReady_def)
    next
      case None
      have "table (s \<lparr> startReject := Some (length (attempts s)) \<rparr>) = table s" by (simp add: table_def)
      then have "table_ok (s \<lparr> startReject := Some (length (attempts s)) \<rparr>)" using ok by (rule table_ok_same)
      then have 1: "table_ok (snd (startInternal (s \<lparr> startReject := Some (length (attempts s)) \<rparr>)))"
        by (rule table_ok_startInternal)
      have "table (snd (ensureReady s)) = table (snd (startInternal (s \<lparr> startReject := Some (length (attempts s)) \<rparr>)))"
        using None False by (simp add: ensureReady_def Let_def case_prod_beta) (simp add: table_def)
      then show ?thesis using 1 by (rule table_ok_same)
    qed
  qed
qed

lemma table_ok_external: "table_ok s \<Longrightarrow> table_ok (external_ensureReady s)"
proof -
  assume "table_ok s"
  then have 1: "table_ok (snd (ensureReady s))" by (rule table_ok_ensureReady)
  have "table (external_ensureReady s) = table (snd (ensureReady s))"
    by (simp add: external_ensureReady_def case_prod_beta) (simp add: table_def)
  then show ?thesis using 1 by (rule table_ok_same)
qed

lemma table_ok_restart: "table_ok s \<Longrightarrow> table_ok (restart s)"
proof (cases "restart_timers s = 0")
  case True
  assume "table_ok s"
  then show ?thesis using True by (simp add: restart_def)
next
  case False
  assume ok: "table_ok s"
  have "table (s \<lparr> restart_timers := restart_timers s - 1 \<rparr>) = table s" by (simp add: table_def)
  then have "table_ok (s \<lparr> restart_timers := restart_timers s - 1 \<rparr>)" using ok by (rule table_ok_same)
  then show ?thesis using False by (simp add: restart_def table_ok_external)
qed

lemma table_ok_run_task: "table_ok s \<Longrightarrow> table_ok (run_task i s)"
proof -
  assume ok: "table_ok s"
  then have 1: "table_ok (snd (ensureReady s))" by (rule table_ok_ensureReady)
  show ?thesis
  proof (cases "i < length (turns s) \<and> phase (turns s ! i) = Queued \<and> (i = 0 \<or> chained (turns s ! (i - 1)))")
    case True
    then have "table (run_task i s) = table (snd (ensureReady s))"
      by (simp add: run_task_def case_prod_beta table_set_turn)
    then show ?thesis using 1 by (rule table_ok_same)
  next
    case False
    have "run_task i s = s" unfolding run_task_def by (simp only: False if_False)
    then show ?thesis using ok by simp
  qed
qed

lemma table_ok_start_turn: "table_ok s \<Longrightarrow> table_ok (start_turn i s)"
proof -
  assume ok: "table_ok s"
  show ?thesis
  proof (cases "truthy (threadId s)")
    case False
    then have "table (start_turn i s) = table s" by (simp add: start_turn_def Let_def table_set_turn)
    then show ?thesis using ok by (rule table_ok_same)
  next
    case True
    show ?thesis
    proof (cases "sendRequest ''turn/start'' (turn_start_params (threadId s) (turns s ! i)) s")
      case (Inl e)
      then have "table (start_turn i s) = table s"
        using True by (simp add: start_turn_def Let_def table_set_turn)
      then show ?thesis using ok by (rule table_ok_same)
    next
      case (Inr p)
      then have "sendRequest ''turn/start'' (turn_start_params (threadId s) (turns s ! i)) s = Inr (fst p, snd p)"
        by simp
      then have 1: "table_ok (snd p)" using ok table_ok_sendRequest by blast
      have "table (start_turn i s) = table (snd p)"
        using True Inr by (simp add: start_turn_def Let_def case_prod_beta table_set_turn)
      then show ?thesis using 1 by (rule table_ok_same)
    qed
  qed
qed

lemma table_ok_resume_turn: "table_ok s \<Longrightarrow> table_ok (resume_turn i s)"
proof -
  assume ok: "table_ok s"
  have same: "\<And>s'. table s' = table s \<Longrightarrow> table_ok s'" using ok table_ok_same by blast
  show ?thesis
  proof (cases "i \<ge> length (turns s)")
    case True
    then show ?thesis using ok by (simp add: resume_turn_def)
  next
    case False
    show ?thesis
    proof (cases "phase (turns s ! i)")
      case Queued
      then show ?thesis using ok False by (simp add: resume_turn_def Let_def)
    next
      case (AwaitReady c)
      show ?thesis
      proof (cases c)
        case (Initiator k)
        have "table (resume_turn i s) = table s"
          using False AwaitReady Initiator table_release [of c s]
          by (simp add: resume_turn_def Let_def case_prod_beta table_set_turn)
        then show ?thesis by (rule same)
      next
        case Ready
        then show ?thesis using False AwaitReady ok table_ok_start_turn
          by (simp add: resume_turn_def Let_def call_outcome_def)
      next
        case (Joined k)
        show ?thesis
        proof (cases "call_outcome s c")
          case None
          then show ?thesis using False AwaitReady Joined ok by (simp add: resume_turn_def Let_def)
        next
          case (Some r)
          then show ?thesis using False AwaitReady Joined ok table_ok_start_turn same
            by (cases r) (simp_all add: resume_turn_def Let_def table_set_turn)
        qed
      next
        case (Released r)
        then show ?thesis using False AwaitReady ok table_ok_start_turn same
          by (cases r) (simp_all add: resume_turn_def Let_def table_set_turn call_outcome_def)
      qed
    next
      case (AwaitTurnStart rid)
      show ?thesis
      proof (cases "request_state s rid")
        case None
        then show ?thesis using False AwaitTurnStart ok by (simp add: resume_turn_def Let_def)
      next
        case (Some r)
        then show ?thesis using False AwaitTurnStart same
          by (cases r) (simp_all add: resume_turn_def Let_def table_set_turn)
      qed
    next
      case AwaitWaiter
      show ?thesis
      proof (cases "turn_waiter (turns s ! i)")
        case None
        then show ?thesis using False AwaitWaiter ok by (simp add: resume_turn_def Let_def)
      next
        case (Some w)
        then show ?thesis using False AwaitWaiter ok same
          by (cases "promise w") (simp_all add: resume_turn_def Let_def table_set_turn)
      qed
    next
      case (Finished r)
      then show ?thesis using ok False by (simp add: resume_turn_def Let_def)
    qed
  qed
qed

lemma table_ok_resume_start: "table_ok s \<Longrightarrow> table_ok (resume_start k s)"
proof -
  assume ok: "table_ok s"
  have same: "\<And>s'. table s' = table s \<Longrightarrow> table_ok s'" using ok table_ok_same by blast
  show ?thesis
  proof (cases "k \<ge> length (attempts s)")
    case True
    then show ?thesis using ok by (simp add: resume_start_def)
  next
    case False
    show ?thesis
    proof (cases "si_phase (attempts s ! k)")
      case (AwaitInitialize rid)
      show ?thesis
      proof (cases "request_state s rid")
        case None
        then show ?thesis using False AwaitInitialize ok by (simp add: resume_start_def)
      next
        case (Some r)
        show ?thesis
        proof (cases r)
          case (Inl e)
          then show ?thesis using False AwaitInitialize Some same
            by (simp add: resume_start_def table_set_start_phase)
        next
          case (Inr response)
          show ?thesis
          proof (cases "sendNotification ''initialized'' JUndefined s")
            case Inl2: (Inl e)
            then show ?thesis using False AwaitInitialize Some Inr same
              by (simp add: resume_start_def table_set_start_phase)
          next
            case Inr2: (Inr s1)
            have ok1: "table_ok s1" using table_sendNotification [OF Inr2] ok by (rule table_ok_same)
            show ?thesis
            proof (cases "sendRequest ''thread/start'' (thread_start_params (config s1)) s1")
              case Inl3: (Inl e)
              have "table (resume_start k s) = table s1"
                using False AwaitInitialize Some Inr Inr2 Inl3
                by (simp add: resume_start_def table_set_start_phase)
              then show ?thesis using ok1 by (rule table_ok_same)
            next
              case Inr3: (Inr p)
              then have "sendRequest ''thread/start'' (thread_start_params (config s1)) s1 = Inr (fst p, snd p)"
                by simp
              then have 2: "table_ok (snd p)" using ok1 table_ok_sendRequest by blast
              have "table (resume_start k s) = table (snd p)"
                using False AwaitInitialize Some Inr Inr2 Inr3
                by (simp add: resume_start_def table_set_start_phase case_prod_beta)
              then show ?thesis using 2 by (rule table_ok_same)
            qed
          qed
        qed
      qed
    next
      case (AwaitThreadStart rid)
      show ?thesis
      proof (cases "request_state s rid")
        case None
        then show ?thesis using False AwaitThreadStart ok by (simp add: resume_start_def)
      next
        case (Some r)
        have "table (s \<lparr> threadId := v \<rparr>) = table s" for v by (simp add: table_def)
        then show ?thesis using False AwaitThreadStart Some same
          by (cases r) (simp_all add: resume_start_def Let_def table_set_start_phase)
      qed
    next
      case (StartDone r)
      then show ?thesis using ok False by (simp add: resume_start_def)
    qed
  qed
qed

lemma handleLine_cases:
  assumes "handleLine parsed s = Inr s'"
  shows "s' = resetSession s \<or> (\<exists>m. handleServerRequest m s = Inr s') \<or>
         (\<exists>m. s' = handleResponse m s) \<or> (\<exists>m. s' = emitNotification m s) \<or> s' = s"
proof (cases parsed)
  case None
  then have "Inr s' = (Inr (resetSession s) :: exn + client)" using assms by (simp add: handleLine_def)
  then have "s' = resetSession s" by (simp only: sum.inject)
  then show ?thesis by (rule disjI1)
next
  case (Some m)
  define e where "e = handleLine (Some m) s"
  have e: "e = Inr s'" using assms Some by (simp add: e_def)
  have "e = Inl TypeError \<or> e = handleServerRequest m s \<or> e = Inr (handleResponse m s) \<or>
        e = Inr (emitNotification m s) \<or> e = Inr s"
    unfolding e_def handleLine_def Let_def by simp
  then have "handleServerRequest m s = Inr s' \<or> Inr s' = (Inr (handleResponse m s) :: exn + client) \<or>
        Inr s' = (Inr (emitNotification m s) :: exn + client) \<or> Inr s' = (Inr s :: exn + client)"
    unfolding e by (simp only: sum.distinct simp_thms eq_commute [of "Inr s'"])
  then have "handleServerRequest m s = Inr s' \<or> s' = handleResponse m s \<or>
        s' = emitNotification m s \<or> s' = s"
    by (simp only: sum.inject)
  then show ?thesis by blast
qed

lemma table_ok_handleLine:
  assumes "table_ok s" and "handleLine parsed s = Inr s'"
  shows "table_ok s'"
proof -
  consider (reset) "s' = resetSession s" | (req) m where "handleServerRequest m s = Inr s'"
    | (resp) m where "s' = handleResponse m s" | (notif) m where "s' = emitNotification m s"
    | (none) "s' = s"
    using handleLine_cases [OF assms(2)] by blast
  then show ?thesis
  proof cases
    case reset
    show ?thesis unfolding reset using table_resetSession assms(1) by (rule table_ok_same)
  next
    case req
    show ?thesis using table_handleServerRequest [OF req] assms(1) by (rule table_ok_same)
  next
    case resp
    show ?thesis unfolding resp using assms(1) by (rule table_ok_handleResponse)
  next
    case notif
    show ?thesis unfolding notif using table_emitNotification assms(1) by (rule table_ok_same)
  next
    case none
    show ?thesis unfolding none by (rule assms(1))
  qed
qed

lemma table_ok_handle: "table_ok s \<Longrightarrow> table_ok (handle ev s)"
proof (cases ev)
  case (Line parsed)
  assume ok: "table_ok s"
  have "table (s \<lparr> crashed := True \<rparr>) = table s" by (simp add: table_def)
  then have "table_ok (s \<lparr> crashed := True \<rparr>)" using ok by (rule table_ok_same)
  then show ?thesis using Line ok table_ok_handleLine [OF ok]
    by (cases "handleLine parsed s") simp_all
next
  case ChildExit
  assume ok: "table_ok s"
  have "table (s \<lparr> live_children := live_children s - 1 \<rparr>) = table s" by (simp add: table_def)
  then have "table_ok (s \<lparr> live_children := live_children s - 1 \<rparr>)" using ok by (rule table_ok_same)
  then show ?thesis using ChildExit ok table_ok_on_exit by simp
qed (simp_all add: table_ok_external table_ok_stop table_ok_run_task table_ok_resume_turn
       table_ok_resume_start table_ok_request_timeout table_ok_restart
       table_ok_same [OF table_queueTurn] table_ok_same [OF table_adopt_result]
       table_ok_same [OF table_chain_queue] table_ok_same [OF table_settle_start]
       table_ok_same [OF table_resume_call] table_ok_same [OF table_turn_timeout]
       table_ok_same [OF table_on_child_error] table_ok_same [OF table_close_stdin])

lemma table_ok_step: "table_ok s \<Longrightarrow> table_ok (step ev s)"
  by (simp add: step_def table_ok_handle)

lemma table_ok_run: "table_ok s \<Longrightarrow> table_ok (run evs s)"
  by (induction evs arbitrary: s) (simp_all add: table_ok_step)

text \<open>
  C2. In every state the client reaches, every request id that \<^verbatim>\<open>#sendRequest\<close> has
  registered is either still in the correlation table, with its timer set, never removed
  and its promise never settled, or out of the table, with its timer cleared, removed
  exactly once and its promise settled exactly once. The runs cover responses, request
  timeouts, failed writes, \<^verbatim>\<open>stop()\<close> and the exit of the process. An id in the table
  does not stay there for ever: its timer is set, and the timer takes it out.
\<close>

theorem pending_request_settled_once:
  assumes "s = run evs (new_client cfg)" and "1 \<le> rid" and "rid < requestCounter s"
  shows "distinct (map fst (pendingRequests s)) \<and>
         (rid \<in> fst ` set (pendingRequests s) \<longrightarrow>
            rid \<in> fst ` set (request_timers s) \<and> count_list (removed s) rid = 0 \<and>
            count_list (map fst (settle_log s)) rid = 0 \<and> request_state s rid = None) \<and>
         (rid \<notin> fst ` set (pendingRequests s) \<longrightarrow>
            rid \<notin> fst ` set (request_timers s) \<and> count_list (removed s) rid = 1 \<and>
            count_list (map fst (settle_log s)) rid = 1 \<and> request_state s rid \<noteq> None) \<and>
         (rid \<in> fst ` set (pendingRequests s) \<and> \<not> crashed s \<longrightarrow>
            rid \<notin> fst ` set (pendingRequests (step (RequestTimeout rid) s)))"
proof -
  have ok: "table_ok s" unfolding assms(1) using table_ok_new by (rule table_ok_run)
  then have i: "id_ok (table s) rid" and d: "distinct (map fst (pendingRequests s))"
    by (simp_all add: table_ok_def)
  have n: "\<And>xs. rid \<notin> fst ` set xs \<Longrightarrow> map_of xs rid = None" for xs :: "(int \<times> (exn + js)) list"
    by (simp add: map_of_eq_None_iff)
  have a: "rid \<in> fst ` set (pendingRequests s) \<longrightarrow>
            rid \<in> fst ` set (request_timers s) \<and> count_list (removed s) rid = 0 \<and>
            count_list (map fst (settle_log s)) rid = 0 \<and> request_state s rid = None"
    using i by (auto simp: id_ok_def table_def request_state_def count_list_0 map_of_eq_None_iff)
  have b: "rid \<notin> fst ` set (pendingRequests s) \<longrightarrow>
            rid \<notin> fst ` set (request_timers s) \<and> count_list (removed s) rid = 1 \<and>
            count_list (map fst (settle_log s)) rid = 1 \<and> request_state s rid \<noteq> None"
  proof
    assume "rid \<notin> fst ` set (pendingRequests s)"
    then have c: "rid \<notin> fst ` set (request_timers s) \<and> count_list (removed s) rid = 1 \<and>
            count_list (map fst (settle_log s)) rid = 1"
      using i assms(2,3) by (simp add: id_ok_def table_def)
    then have "rid \<in> set (map fst (settle_log s))" using count_list_0 [of rid "map fst (settle_log s)"] by fastforce
    then have "request_state s rid \<noteq> None" by (simp add: request_state_def map_of_eq_None_iff)
    then show "rid \<notin> fst ` set (request_timers s) \<and> count_list (removed s) rid = 1 \<and>
            count_list (map fst (settle_log s)) rid = 1 \<and> request_state s rid \<noteq> None" using c by simp
  qed
  have c: "rid \<in> fst ` set (pendingRequests s) \<and> \<not> crashed s \<longrightarrow>
            rid \<notin> fst ` set (pendingRequests (step (RequestTimeout rid) s))"
  proof
    assume p: "rid \<in> fst ` set (pendingRequests s) \<and> \<not> crashed s"
    then have "rid \<in> fst ` set (request_timers s)" using a by simp
    then obtain m where "map_of (request_timers s) rid = Some m"
      by (metis map_of_eq_None_iff not_None_eq)
    then show "rid \<notin> fst ` set (pendingRequests (step (RequestTimeout rid) s))"
      using p by (simp add: step_def request_timeout_def settle_def delete_pending_def fst_set_delete)
  qed
  show ?thesis using d a b c by blast
qed

text \<open>
  Witness for C2: request 1 is answered, answered again, timed out after that, and the
  process exits and the client stops; it has been removed once and settled once.
\<close>

theorem pending_request_settled_once_witness:
  "1 < requestCounter (run [EnsureReady, Line (Some (response 1 (JObj []))),
                            Line (Some (response 1 (JObj []))), RequestTimeout 1, ChildExit, Stop]
                         (new_client sample_config)) \<and>
   1 \<notin> fst ` set (pendingRequests (run [EnsureReady, Line (Some (response 1 (JObj []))),
                            Line (Some (response 1 (JObj []))), RequestTimeout 1, ChildExit, Stop]
                         (new_client sample_config))) \<and>
   count_list (removed (run [EnsureReady, Line (Some (response 1 (JObj []))),
                            Line (Some (response 1 (JObj []))), RequestTimeout 1, ChildExit, Stop]
                         (new_client sample_config))) 1 = 1 \<and>
   count_list (map fst (settle_log (run [EnsureReady, Line (Some (response 1 (JObj []))),
                            Line (Some (response 1 (JObj []))), RequestTimeout 1, ChildExit, Stop]
                         (new_client sample_config)))) 1 = 1"
proof -
  define s where "s = run [EnsureReady, Line (Some (response 1 (JObj []))),
                            Line (Some (response 1 (JObj []))), RequestTimeout 1, ChildExit, Stop]
                         (new_client sample_config)"
  have c: "1 < requestCounter s" unfolding s_def by code_simp
  have p: "1 \<notin> fst ` set (pendingRequests s)" unfolding s_def by code_simp
  show ?thesis
    using pending_request_settled_once [OF s_def, of 1] c p unfolding s_def [symmetric] by simp
qed

lemma map_of_append_fresh: "k \<notin> fst ` set xs \<Longrightarrow> map_of (xs @ ys) k = map_of ys k"
  by (induction xs) auto

lemma map_of_const: "k \<in> fst ` set xs \<Longrightarrow> map_of (map (\<lambda>entry. (fst entry, v)) xs) k = Some v"
  by (induction xs) auto

text \<open>
  C8. When a child exits, in any state the client reaches, the handler sets the thread
  id to null, forgets the child, empties the correlation table, rejects the promise of
  every request that was pending with \<open>Codex app-server exited.\<close> and clears its timer,
  and sets one more restart timer exactly when the client is not stopping and
  auto-restart is enabled; the restart timer calls \<^verbatim>\<open>ensureReady()\<close>.
\<close>

theorem exit_handler:
  assumes "s = run evs (new_client cfg)" and "\<not> crashed s" and "0 < live_children s"
    and "s' = step ChildExit s"
  shows "threadId s' = JNull \<and> child s' = None \<and> pendingRequests s' = [] \<and>
         (\<forall>rid \<in> fst ` set (pendingRequests s).
            request_state s' rid = Some (Inl (Error ''Codex app-server exited.'')) \<and>
            rid \<notin> fst ` set (request_timers s')) \<and>
         restart_timers s' =
           (if \<not> isStopping s \<and> autoRestart (config s) then restart_timers s + 1 else restart_timers s) \<and>
         (0 < restart_timers s' \<longrightarrow>
            step RestartTimer s' = external_ensureReady (s' \<lparr> restart_timers := restart_timers s' - 1 \<rparr>))"
proof -
  have ok: "table_ok s" unfolding assms(1) using table_ok_new by (rule table_ok_run)
  define s0 where "s0 = s \<lparr> live_children := live_children s - 1 \<rparr>"
  have s': "s' = on_exit s0" unfolding assms(4) s0_def using assms(2,3) by (simp add: step_def)
  have f: "threadId s' = JNull \<and> child s' = None \<and> pendingRequests s' = [] \<and>
           restart_timers s' =
             (if \<not> isStopping s \<and> autoRestart (config s) then restart_timers s + 1 else restart_timers s) \<and>
           crashed s' = crashed s"
    unfolding s' s0_def by (simp add: on_exit_def reject_all_eq Let_def)
  have l: "settle_log s' = settle_log s @ map (\<lambda>entry. (fst entry, Inl (Error ''Codex app-server exited.''))) (pendingRequests s)"
    and t: "request_timers s' = filter (\<lambda>t. fst t \<notin> fst ` set (pendingRequests s)) (request_timers s)"
    unfolding s' s0_def by (simp_all add: on_exit_def reject_all_eq Let_def)
  have p: "\<forall>rid \<in> fst ` set (pendingRequests s).
            request_state s' rid = Some (Inl (Error ''Codex app-server exited.'')) \<and>
            rid \<notin> fst ` set (request_timers s')"
  proof
    fix rid assume r: "rid \<in> fst ` set (pendingRequests s)"
    have "id_ok (table s) rid" using ok by (simp add: table_ok_def)
    then have "rid \<notin> fst ` set (settle_log s)" using r by (simp add: id_ok_def table_def)
    then have "request_state s' rid = Some (Inl (Error ''Codex app-server exited.''))"
      unfolding request_state_def l using r
      by (simp add: map_of_append_fresh map_of_const del: map_of_append)
    moreover have "rid \<notin> fst ` set (request_timers s')" unfolding t using r by force
    ultimately show "request_state s' rid = Some (Inl (Error ''Codex app-server exited.'')) \<and>
            rid \<notin> fst ` set (request_timers s')" by simp
  qed
  have r: "0 < restart_timers s' \<longrightarrow>
            step RestartTimer s' = external_ensureReady (s' \<lparr> restart_timers := restart_timers s' - 1 \<rparr>)"
    using f assms(2) by (simp add: step_def restart_def)
  show ?thesis using f p r by blast
qed

text \<open>
  Witness for C8: the process exits while \<^verbatim>\<open>initialize\<close> is pending, with
  auto-restart enabled; and it exits after \<^verbatim>\<open>stop()\<close>.
\<close>

theorem exit_handler_witness:
  "\<not> crashed (run [EnsureReady] (new_client sample_config)) \<and>
   0 < live_children (run [EnsureReady] (new_client sample_config)) \<and>
   pendingRequests (run [EnsureReady] (new_client sample_config)) = [(1, ''initialize'')] \<and>
   request_state (step ChildExit (run [EnsureReady] (new_client sample_config))) 1
     = Some (Inl (Error ''Codex app-server exited.'')) \<and>
   restart_timers (step ChildExit (run [EnsureReady] (new_client sample_config))) = 1 \<and>
   restart_timers (step ChildExit (run [Stop, EnsureReady] (new_client sample_config))) = 0"
proof -
  define s where "s = run [EnsureReady] (new_client sample_config)"
  have a: "\<not> crashed s" "0 < live_children s" "pendingRequests s = [(1, ''initialize'')]"
    "\<not> isStopping s" "autoRestart (config s)" "restart_timers s = 0"
    unfolding s_def by code_simp+
  have b: "restart_timers (step ChildExit (run [Stop, EnsureReady] (new_client sample_config))) = 0"
    by code_simp
  show ?thesis
    using exit_handler [OF s_def a(1,2) refl] a b unfolding s_def [symmetric] by simp
qed

end
